theory Spec2Isabelle
  imports Complex_Main
begin

section \<open>The LSODA integrator of \<^verbatim>\<open>inst/include/lsoda.h\<close>\<close>

text \<open>
  A shallow embedding of the class \<^verbatim>\<open>LSODA::LSODA\<close>. Conventions:
  \<^item> a \<^verbatim>\<open>double\<close> is a \<open>real\<close>: arithmetic is exact, there is no rounding, infinity or NaN
    (\<open>x / 0 = 0\<close> in HOL where the machine gives an infinity or a NaN); the one exception
    is the product in the range test of \<^verbatim>\<open>intdy\<close>, which is taken with its underflow
    (\<open>product_positive\<close> below);
  \<^item> a \<^verbatim>\<open>size_t\<close> is a \<open>nat\<close>; where the source can wrap around (a subtraction, a conversion
    from \<^verbatim>\<open>int\<close>, the increment of the uninitialised \<^verbatim>\<open>illin\<close>) the wrap modulo \<open>2 ^ 64\<close> is
    written out; an \<^verbatim>\<open>int\<close> is an \<open>int\<close>;
  \<^item> a \<^verbatim>\<open>std::vector\<close> or \<^verbatim>\<open>std::array\<close> is a list, indexed from 0 as in the source (which
    leaves index 0 unused); a read or write out of range is undefined behaviour in the
    source, while \<open>xs ! i\<close> is unspecified and \<open>xs[i := v]\<close> does nothing in HOL;
  \<^item> members whose names end in an underscore lose it (\<^verbatim>\<open>tn_\<close> is \<open>tn\<close>, \<^verbatim>\<open>h_\<close> is \<open>h\<close>,
    \<^verbatim>\<open>yh_\<close> is \<open>yh\<close>, \<^verbatim>\<open>wm_\<close> is \<open>wm\<close>, \<^verbatim>\<open>meth_\<close> is \<open>meth\<close>, \<^verbatim>\<open>itol_\<close>, \<^verbatim>\<open>rtol_\<close>, \<^verbatim>\<open>atol_\<close>
    are \<open>itol\<close>, \<open>rtol\<close>, \<open>atol\<close>);
  \<^item> a member function takes the object's state and returns the new one, together with
    the new values of its reference and pointer parameters;
  \<^item> \<^verbatim>\<open>Rcpp::stop\<close> (an exception) is the value \<open>Inl msg\<close>; text written to the error
    stream is not modelled;
  \<^item> a \<^verbatim>\<open>while(1)\<close> loop takes fuel, and \<open>None\<close> is the loop that has not returned when
    the fuel is used up.
\<close>

subsection \<open>Scalars\<close>

definition ETA :: real where
  "ETA = 1 / 2 ^ 52"

text \<open>\<^verbatim>\<open>sign(a, b)\<close>: the magnitude of \<open>a\<close> with the sign of \<open>b\<close>.\<close>

definition sign :: "real \<Rightarrow> real \<Rightarrow> real" where
  "sign a b = (if b \<ge> 0 then \<bar>a\<bar> else - \<bar>a\<bar>)"

text \<open>
  The test \<^verbatim>\<open>a * b > 0.\<close> on two finite doubles. The product is rounded to the nearest
  double, and the least positive double is \<open>2 ^ - 1074\<close>: a product of magnitude at most
  \<open>2 ^ - 1075\<close> is rounded to zero, a larger positive one to a positive double (or to
  infinity). So the test holds exactly when the product exceeds \<open>2 ^ - 1075\<close>.
\<close>

definition product_positive :: "real \<Rightarrow> real \<Rightarrow> bool" where
  "product_positive a b = (a * b > 1 / 2 ^ 1075)"

text \<open>Arithmetic of \<^verbatim>\<open>size_t\<close> where it can wrap.\<close>

definition sz_sub :: "nat \<Rightarrow> nat \<Rightarrow> nat" where
  "sz_sub a b = (if b \<le> a then a - b else a + 2 ^ 64 - b)"

definition sz_inc :: "nat \<Rightarrow> nat" where
  "sz_inc a = (a + 1) mod 2 ^ 64"

definition sz_of_int :: "int \<Rightarrow> nat" where
  "sz_of_int i = nat (i mod 2 ^ 64)"

text \<open>
  A \<^verbatim>\<open>double\<close> stored in a \<^verbatim>\<open>size_t\<close> is truncated towards zero. (The conversion is
  undefined from \<open>2 ^ 64\<close> on; the model is used on non-negative values only.)
\<close>

definition sz_of_double :: "real \<Rightarrow> nat" where
  "sz_of_double x = nat \<lfloor>x\<rfloor>"

text \<open>\<^verbatim>\<open>v.resize(k, x)\<close>: keeps the first \<open>k\<close> elements and pads with \<open>x\<close>.\<close>

definition resize :: "'a list \<Rightarrow> nat \<Rightarrow> 'a \<Rightarrow> 'a list" where
  "resize xs k x = take k xs @ replicate (k - length xs) x"

subsection \<open>The object's state\<close>

record lsoda_state =
  ml :: nat
  mu :: nat
  imxer :: nat
  sqrteta :: real
  mord :: "nat list"
  sm1 :: "real list"
  el :: "real list"
  cm1 :: "real list"
  cm2 :: "real list"
  elco :: "real list list"
  tesco :: "real list list"
  illin :: nat
  init :: nat
  ierpj :: nat
  iersl :: nat
  jcur :: nat
  l :: nat
  miter :: nat
  maxord :: nat
  maxcor :: nat
  msbp :: nat
  mxncf :: nat
  kflag :: int
  jstart :: int
  iret :: int
  ixpr :: nat
  jtyp :: nat
  mused :: nat
  mxordn :: nat
  mxords :: nat
  meth :: nat
  n :: nat
  nq :: nat
  nst :: nat
  nfe :: nat
  nje :: nat
  nqu :: nat
  mxstep :: nat
  mxhnil :: nat
  nslast :: nat
  nhnil :: nat
  ntrep :: nat
  nyh :: nat
  ccmax :: real
  el0 :: real
  h :: real
  hmin :: real
  hmxi :: real
  hu :: real
  rc :: real
  tn :: real
  tsw :: real
  pdnorm :: real
  conit :: real
  crate :: real
  hold :: real
  rmax :: real
  ialth :: nat
  ipup :: nat
  lmax :: nat
  nslp :: nat
  pdest :: real
  pdlast :: real
  ratio :: real
  icount :: int
  irflag :: int
  ewt :: "real list"
  savf :: "real list"
  acor :: "real list"
  yh :: "real list list"
  wm :: "real list list"
  ipvt :: "int list"
  itol :: int
  rtol :: "real list"
  atol :: "real list"

subsection \<open>Vector kernels\<close>

text \<open>
  \<^verbatim>\<open>idamax1\<close>. The source declares \<^verbatim>\<open>v\<close> and \<^verbatim>\<open>vmax\<close> as \<^verbatim>\<open>size_t\<close>, so every magnitude is
  truncated to an integer before it is compared.
\<close>

definition idamax1 :: "real list \<Rightarrow> nat \<Rightarrow> nat \<Rightarrow> nat" where
  "idamax1 dx k offset =
     fst (fold (\<lambda>i (idmax, vmax).
                  let v = sz_of_double \<bar>dx ! (i + offset)\<bar>
                  in if v > vmax then (i, v) else (idmax, vmax))
               [1..<Suc k] (1, 0))"

text \<open>\<^verbatim>\<open>dscal1\<close> scales from index \<open>1 + offset\<close> to the end of the vector; it ignores its length argument.\<close>

definition dscal1 :: "real \<Rightarrow> real list \<Rightarrow> nat \<Rightarrow> nat \<Rightarrow> real list" where
  "dscal1 da dx k offset = take (1 + offset) dx @ map (\<lambda>x. da * x) (drop (1 + offset) dx)"

definition ddot1 :: "real list \<Rightarrow> real list \<Rightarrow> nat \<Rightarrow> nat \<Rightarrow> nat \<Rightarrow> real" where
  "ddot1 a b k offsetA offsetB =
     fold (\<lambda>i sum. sum + a ! (i + offsetA) * b ! (i + offsetB)) [1..<Suc k] 0"

definition daxpy1 :: "real \<Rightarrow> real list \<Rightarrow> real list \<Rightarrow> nat \<Rightarrow> nat \<Rightarrow> nat \<Rightarrow> real list" where
  "daxpy1 da dx dy k offsetX offsetY =
     fold (\<lambda>i dy. dy[i + offsetY := da * dx ! (i + offsetX) + dy ! (i + offsetY)]) [1..<Suc k] dy"

subsection \<open>Dense linear algebra\<close>

text \<open>Writing one entry of a matrix stored as a vector of rows: \<^verbatim>\<open>a[i][j] = v\<close>.\<close>

definition set2 :: "real list list \<Rightarrow> nat \<Rightarrow> nat \<Rightarrow> real \<Rightarrow> real list list" where
  "set2 a i j v = a[i := (a ! i)[j := v]]"

text \<open>
  \<^verbatim>\<open>dgesl(a, n, ipvt, b, job)\<close>: returns \<^verbatim>\<open>b\<close>; the parameter \<^verbatim>\<open>ipvt\<close> is \<open>piv\<close> here. \<^verbatim>\<open>lsoda\<close> calls it with \<open>n \<ge> 1\<close> only (for
  \<open>n = 0\<close> the bound \<^verbatim>\<open>n - 1\<close> of the source wraps around).
\<close>

definition dgesl :: "real list list \<Rightarrow> nat \<Rightarrow> int list \<Rightarrow> real list \<Rightarrow> nat \<Rightarrow> real list" where
  "dgesl a k_n piv b job =
     (if job = 0 then
        let b = fold (\<lambda>k b.
                  let t = ddot1 (a ! k) b (k - 1) 0 0
                  in b[k := (b ! k - t) / a ! k ! k]) [1..<Suc k_n] b
        in fold (\<lambda>k b.
                  let b = b[k := b ! k + ddot1 (a ! k) b (k_n - k) k k];
                      j = sz_of_int (piv ! k)
                  in if j \<noteq> k then (let t = b ! j; b = b[j := b ! k] in b[k := t]) else b)
             (rev [1..<k_n]) b
      else
        let b = fold (\<lambda>k b.
                  let j = sz_of_int (piv ! k);
                      t = b ! j;
                      b = (if j \<noteq> k then (let b = b[j := b ! k] in b[k := t]) else b)
                  in daxpy1 t (a ! k) b (k_n - k) k k) [1..<k_n] b
        in fold (\<lambda>k b.
                  let b = b[k := b ! k / a ! k ! k];
                      t = - (b ! k)
                  in daxpy1 t (a ! k) b (k - 1) 0 0) (rev [1..<Suc k_n]) b)"

text \<open>
  \<^verbatim>\<open>dgefa(a, n, ipvt, info)\<close>: returns \<^verbatim>\<open>a\<close>, \<^verbatim>\<open>ipvt\<close> and \<^verbatim>\<open>*info\<close>. The first definition is the
  body of the loop over \<open>k\<close>.
\<close>

definition dgefa_column ::
  "nat \<Rightarrow> nat \<Rightarrow> real list list \<times> int list \<times> nat \<Rightarrow> real list list \<times> int list \<times> nat" where
  "dgefa_column k_n k = (\<lambda>(a, ipvt, info).
     let j = idamax1 (a ! k) (k_n - k + 1) (k - 1) + k - 1;
         ipvt = ipvt[k := int j]
     in if a ! k ! j = 0 then (a, ipvt, k)
        else
          let a = (if j \<noteq> k
                   then (let t = a ! k ! j; a = set2 a k j (a ! k ! k) in set2 a k k t)
                   else a);
              t = - 1 / a ! k ! k;
              a = a[k := dscal1 t (a ! k) (k_n - k) k];
              a = fold (\<lambda>i a.
                     let t = a ! i ! j;
                         a = (if j \<noteq> k
                              then (let a = set2 a i j (a ! i ! k) in set2 a i k t)
                              else a)
                     in a[i := daxpy1 t (a ! k) (a ! i) (k_n - k) k k]) [Suc k..<Suc k_n] a
          in (a, ipvt, info))"

definition dgefa :: "real list list \<Rightarrow> nat \<Rightarrow> int list \<Rightarrow> real list list \<times> int list \<times> nat" where
  "dgefa a k_n piv =
     (case fold (dgefa_column k_n) [1..<k_n] (a, piv, 0) of (a', piv', info) \<Rightarrow>
        (a', piv'[k_n := int k_n], if a' ! k_n ! k_n = 0 then k_n else info))"

subsection \<open>Norms and error weights\<close>

definition vmnorm :: "nat \<Rightarrow> real list \<Rightarrow> real list \<Rightarrow> real" where
  "vmnorm k v w = fold (\<lambda>i vm. max vm (\<bar>v ! i\<bar> * w ! i)) [1..<Suc k] 0"

definition fnorm :: "nat \<Rightarrow> real list list \<Rightarrow> real list \<Rightarrow> real" where
  "fnorm k a w =
     fold (\<lambda>i an.
             let sum = fold (\<lambda>j sum. sum + \<bar>a ! i ! j\<bar> / w ! j) [1..<Suc k] 0
             in max an (sum * w ! i)) [1..<Suc k] 0"

definition ewset :: "lsoda_state \<Rightarrow> real list \<Rightarrow> lsoda_state" where
  "ewset s ycur =
     (if itol s = 1 then
        s\<lparr>ewt := fold (\<lambda>i e. e[i := rtol s ! 1 * \<bar>ycur ! i\<bar> + atol s ! 1]) [1..<Suc (n s)] (ewt s)\<rparr>
      else if itol s = 2 then
        s\<lparr>ewt := fold (\<lambda>i e. e[i := rtol s ! 1 * \<bar>ycur ! i\<bar> + atol s ! i]) [1..<Suc (n s)] (ewt s)\<rparr>
      else if itol s = 3 then
        s\<lparr>ewt := fold (\<lambda>i e. e[i := rtol s ! i * \<bar>ycur ! i\<bar> + atol s ! 1]) [1..<Suc (n s)] (ewt s)\<rparr>
      else if itol s = 4 then
        s\<lparr>ewt := fold (\<lambda>i e. e[i := rtol s ! i * \<bar>ycur ! i\<bar> + atol s ! i]) [1..<Suc (n s)] (ewt s)\<rparr>
      else s)"

text \<open>
  The loop \<^verbatim>\<open>if (ewt[i] <= 0.) ... return; ewt[i] = 1. / ewt[i];\<close> that \<^verbatim>\<open>lsoda\<close> runs after
  \<^verbatim>\<open>ewset\<close>: the weights inverted up to the first one that is not positive, and whether
  all were positive.
\<close>

fun invert_ewt :: "nat list \<Rightarrow> real list \<Rightarrow> real list \<times> bool" where
  "invert_ewt [] e = (e, True)"
| "invert_ewt (i # is) e = (if e ! i \<le> 0 then (e, False) else invert_ewt is (e[i := 1 / e ! i]))"

subsection \<open>The right-hand side\<close>

text \<open>
  The callback \<^verbatim>\<open>(*f)(t, &y[1], &dydt[1], _data)\<close> is a function of the time and of the
  entries of \<^verbatim>\<open>y\<close> from index 1 on; the derivatives it returns are written to \<^verbatim>\<open>dydt\<close> from
  index 1 on. It has no access to the integrator.
\<close>

type_synonym rhs = "real \<Rightarrow> real list \<Rightarrow> real list"

definition call_f :: "rhs \<Rightarrow> real \<Rightarrow> real list \<Rightarrow> real list \<Rightarrow> real list" where
  "call_f f t y dydt =
     (let d = f t (drop 1 y)
      in fold (\<lambda>i tgt. tgt[i := d ! (i - 1)]) [1..<Suc (length d)] dydt)"

subsection \<open>Method coefficients\<close>

text \<open>
  \<^verbatim>\<open>cfode(meth_)\<close>. The local array \<^verbatim>\<open>pc\<close> has 13 entries; every entry is written before it is
  read. The first two definitions are the bodies of the loops over the order.
\<close>

definition cfode_adams_order ::
  "nat \<Rightarrow> real list list \<times> real list list \<times> real list \<times> real \<Rightarrow>
     real list list \<times> real list list \<times> real list \<times> real" where
  "cfode_adams_order q = (\<lambda>(elco, tesco, pc, rqfac).
     let rq1fac = rqfac;
         rqfac = rqfac / real q;
         nqm1 = q - 1;
         fnqm1 = real nqm1;
         nqp1 = q + 1;
         pc = pc[q := 0];
         pc = fold (\<lambda>i pc. pc[i := pc ! (i - 1) + fnqm1 * pc ! i]) (rev [2..<Suc q]) pc;
         pc = pc[1 := fnqm1 * pc ! 1];
         pint = pc ! 1;
         xpin = pc ! 1 / 2;
         tsign = 1;
         (tsign, pint, xpin) =
           fold (\<lambda>i (tsign, pint, xpin).
                   let tsign = - tsign
                   in (tsign, pint + tsign * pc ! i / real i, xpin + tsign * pc ! i / real (i + 1)))
                [2..<Suc q] (tsign, pint, xpin);
         elco = set2 elco q 1 (pint * rq1fac);
         elco = set2 elco q 2 1;
         elco = fold (\<lambda>i elco. set2 elco q (i + 1) (rq1fac * pc ! i / real i)) [2..<Suc q] elco;
         agamq = rqfac * xpin;
         ragq = 1 / agamq;
         tesco = set2 tesco q 2 ragq;
         tesco = (if q < 12 then set2 tesco nqp1 1 (ragq * rqfac / real nqp1) else tesco);
         tesco = set2 tesco nqm1 3 ragq
     in (elco, tesco, pc, rqfac))"

definition cfode_bdf_order ::
  "nat \<Rightarrow> real list list \<times> real list list \<times> real list \<times> real \<Rightarrow>
     real list list \<times> real list list \<times> real list \<times> real" where
  "cfode_bdf_order q = (\<lambda>(elco, tesco, pc, rq1fac).
     let fnq = real q;
         nqp1 = q + 1;
         pc = pc[nqp1 := 0];
         pc = fold (\<lambda>i pc. pc[i := pc ! (i - 1) + fnq * pc ! i]) (rev [2..<Suc (q + 1)]) pc;
         pc = pc[1 := pc ! 1 * fnq];
         elco = fold (\<lambda>i elco. set2 elco q i (pc ! i / pc ! 2)) [1..<Suc nqp1] elco;
         elco = set2 elco q 2 1;
         tesco = set2 tesco q 1 rq1fac;
         tesco = set2 tesco q 2 (real nqp1 / elco ! q ! 1);
         tesco = set2 tesco q 3 (real (q + 2) / elco ! q ! 1);
         rq1fac = rq1fac / fnq
     in (elco, tesco, pc, rq1fac))"

definition cfode :: "lsoda_state \<Rightarrow> nat \<Rightarrow> lsoda_state" where
  "cfode s meth_arg =
     (if meth_arg = 1 then
        let elco = set2 (elco s) 1 1 1;
            elco = set2 elco 1 2 1;
            tesco = set2 (tesco s) 1 1 0;
            tesco = set2 tesco 1 2 2;
            tesco = set2 tesco 2 1 1;
            tesco = set2 tesco 12 3 0;
            pc = (replicate 13 0)[1 := 1];
            rqfac = 1
        in case fold cfode_adams_order [2..<13] (elco, tesco, pc, rqfac) of
             (ec, tc, pc', rqfac') \<Rightarrow> s\<lparr>elco := ec, tesco := tc\<rparr>
      else
        let pc = (replicate 13 0)[1 := 1];
            rq1fac = 1
        in case fold cfode_bdf_order [1..<6] (elco s, tesco s, pc, rq1fac) of
             (ec, tc, pc', rq1fac') \<Rightarrow> s\<lparr>elco := ec, tesco := tc\<rparr>)"

definition resetcoeff :: "lsoda_state \<Rightarrow> lsoda_state" where
  "resetcoeff s =
     (let ep1 = elco s ! nq s;
          el' = fold (\<lambda>i e. e[i := ep1 ! i]) [1..<Suc (l s)] (el s)
      in s\<lparr>el := el', rc := rc s * el' ! 1 / el0 s, el0 := el' ! 1,
           conit := 0.5 / real (nq s + 2)\<rparr>)"

subsection \<open>Return blocks of \<^verbatim>\<open>lsoda\<close>\<close>

text \<open>\<^verbatim>\<open>terminate(istate)\<close>: returns the state and \<^verbatim>\<open>*istate\<close>.\<close>

definition terminate :: "lsoda_state \<Rightarrow> int \<Rightarrow> lsoda_state \<times> int" where
  "terminate s istate =
     (if illin s = 5 then (s, istate)
      else (s\<lparr>illin := sz_inc (illin s)\<rparr>, -3))"

text \<open>Copying row 1 of the history into \<^verbatim>\<open>y\<close>, the loop that three return blocks share.\<close>

definition load_y :: "lsoda_state \<Rightarrow> real list \<Rightarrow> real list" where
  "load_y s y = fold (\<lambda>i y. y[i := yh s ! 1 ! i]) [1..<Suc (n s)] y"

text \<open>\<^verbatim>\<open>terminate2(y, t)\<close>: returns the state, \<^verbatim>\<open>y\<close> and \<^verbatim>\<open>*t\<close>.\<close>

definition terminate2 :: "lsoda_state \<Rightarrow> real list \<Rightarrow> lsoda_state \<times> real list \<times> real" where
  "terminate2 s y = (s\<lparr>illin := 0\<rparr>, load_y s y, tn s)"

text \<open>\<^verbatim>\<open>successreturn(y, t, itask, ihit, tcrit, istate)\<close>: returns the state, \<^verbatim>\<open>y\<close>, \<^verbatim>\<open>*t\<close> and \<^verbatim>\<open>*istate\<close>.\<close>

definition successreturn ::
  "lsoda_state \<Rightarrow> real list \<Rightarrow> int \<Rightarrow> int \<Rightarrow> real \<Rightarrow> lsoda_state \<times> real list \<times> real \<times> int" where
  "successreturn s y itask ihit tcrit =
     (let y = load_y s y;
          t = tn s;
          t = (if itask = 4 \<or> itask = 5 then (if ihit \<noteq> 0 then tcrit else t) else t)
      in (s\<lparr>illin := 0\<rparr>, y, t, 2))"

subsection \<open>Prediction and its retraction\<close>

text \<open>
  The loop nest that \<^verbatim>\<open>stoda\<close> runs to predict and again, with \<^verbatim>\<open>-=\<close>, after a failed error
  test, and that \<^verbatim>\<open>corfailure\<close> runs with \<^verbatim>\<open>-=\<close>:
  \<^verbatim>\<open>for (j = nq; j >= 1; j--) for (i1 = j; i1 <= nq; i1++) for (i = 1; i <= n; i++)
    yh_[i1][i] += yh_[i1 + 1][i];\<close>
  The operator is the parameter \<open>f\<close>.
\<close>

definition yh_row_op :: "(real \<Rightarrow> real \<Rightarrow> real) \<Rightarrow> nat \<Rightarrow> nat \<Rightarrow> real list list \<Rightarrow> real list list" where
  "yh_row_op f k i1 a =
     fold (\<lambda>i a. a[i1 := (a ! i1)[i := f (a ! i1 ! i) (a ! (i1 + 1) ! i)]]) [1..<Suc k] a"

definition yh_sweep :: "(real \<Rightarrow> real \<Rightarrow> real) \<Rightarrow> nat \<Rightarrow> nat \<Rightarrow> real list list \<Rightarrow> real list list" where
  "yh_sweep f q k a =
     fold (\<lambda>j a. fold (\<lambda>i1 a. yh_row_op f k i1 a) [j..<Suc q] a) (rev [1..<Suc q]) a"

text \<open>\<^verbatim>\<open>tn_ += h_\<close> and the prediction loops of \<^verbatim>\<open>stoda\<close>.\<close>

definition predict :: "lsoda_state \<Rightarrow> lsoda_state" where
  "predict s = s\<lparr>tn := tn s + h s, yh := yh_sweep (+) (nq s) (n s) (yh s)\<rparr>"

text \<open>\<^verbatim>\<open>tn_ = told\<close> and the retraction loops, as after a failed error test and in \<^verbatim>\<open>corfailure\<close>.\<close>

definition retract :: "real \<Rightarrow> lsoda_state \<Rightarrow> lsoda_state" where
  "retract told s = s\<lparr>tn := told, yh := yh_sweep (-) (nq s) (n s) (yh s)\<rparr>"

subsection \<open>Dense output\<close>

text \<open>
  \<^verbatim>\<open>intdy(t, k, dky, iflag)\<close>: returns the state, \<^verbatim>\<open>dky\<close> and \<^verbatim>\<open>*iflag\<close>. The factor \<^verbatim>\<open>ic\<close> is an
  \<^verbatim>\<open>int\<close> product of at most \<open>nq\<close> factors up to \<open>nq\<close>; it does not overflow for the orders
  \<^verbatim>\<open>lsoda\<close> allows (at most 12). \<^verbatim>\<open>pow(h_, -k)\<close> has an integer exponent. The range test
  \<^verbatim>\<open>(t - tp) * (t - tn1) > 0.\<close> is a test on a product of doubles.
\<close>

definition intdy :: "lsoda_state \<Rightarrow> real \<Rightarrow> int \<Rightarrow> real list \<Rightarrow> lsoda_state \<times> real list \<times> int" where
  "intdy s t k dky =
     (if k < 0 \<or> k > int (nq s) then (s, dky, -1)
      else
        let tfuzz = 100 * ETA * sign (\<bar>tn s\<bar> + \<bar>hu s\<bar>) (hu s);
            tp = tn s - hu s - tfuzz;
            tn1 = tn s + tfuzz
        in if product_positive (t - tp) (t - tn1) then (s, dky, -2)
           else
             let sv = (t - tn s) / h s;
                 ic = fold (\<lambda>jj ic. ic * int jj) [sz_sub (l s) (nat k)..<Suc (nq s)] 1;
                 c = real_of_int ic;
                 dky = fold (\<lambda>i dky. dky[i := c * yh s ! l s ! i]) [1..<Suc (n s)] dky;
                 dky = fold (\<lambda>j dky.
                          let jp1 = j + 1;
                              ic = fold (\<lambda>jj ic. ic * jj) [jp1 - k..j] 1;
                              c = real_of_int ic
                          in fold (\<lambda>i dky. dky[i := c * yh s ! nat jp1 ! i + sv * dky ! i])
                               [1..<Suc (n s)] dky)
                        (rev [k..int (nq s) - 1]) dky
             in if k = 0 then (s, dky, 0)
                else
                  let r = h s powi (- k)
                  in (s, fold (\<lambda>i dky. dky[i := dky ! i * r]) [1..<Suc (n s)] dky, 0))"

subsection \<open>Rescaling the history\<close>

text \<open>\<^verbatim>\<open>scaleh(rh, pdh)\<close>: returns the state, \<^verbatim>\<open>*rh\<close> and \<^verbatim>\<open>*pdh\<close>.\<close>

definition scaleh :: "lsoda_state \<Rightarrow> real \<Rightarrow> real \<Rightarrow> lsoda_state \<times> real \<times> real" where
  "scaleh s rh pdh =
     (let rh = min rh (rmax s);
          rh = rh / max 1 (\<bar>h s\<bar> * hmxi s * rh);
          (s, rh, pdh) =
            (if meth s = 1 then
               let s = s\<lparr>irflag := 0\<rparr>;
                   pdh = max (\<bar>h s\<bar> * pdlast s) 0.000001
               in if rh * pdh * 1.00001 \<ge> sm1 s ! nq s
                  then (s\<lparr>irflag := 1\<rparr>, sm1 s ! nq s / pdh, pdh)
                  else (s, rh, pdh)
             else (s, rh, pdh));
          (a, r) = fold (\<lambda>j (a, r).
                     let r = r * rh
                     in (fold (\<lambda>i a. set2 a j i (a ! j ! i * r)) [1..<Suc (n s)] a, r))
                   [2..<Suc (l s)] (yh s, 1)
      in (s\<lparr>yh := a, h := h s * rh, rc := rc s * rh, ialth := l s\<rparr>, rh, pdh))"

subsection \<open>The Jacobian and the linear solve\<close>

text \<open>
  \<^verbatim>\<open>prja(neq, y, f, _data)\<close>: returns the state and \<^verbatim>\<open>y\<close>. The loop over the columns changes
  \<^verbatim>\<open>acor\<close>, \<^verbatim>\<open>wm_\<close> and \<^verbatim>\<open>y\<close> only.
\<close>

definition prja :: "rhs \<Rightarrow> lsoda_state \<Rightarrow> real list \<Rightarrow> lsoda_state \<times> real list" where
  "prja f s y =
     (let s = s\<lparr>nje := nje s + 1, ierpj := 0, jcur := 1\<rparr>;
          hl0 = h s * el0 s
      in if miter s \<noteq> 2 then (s, y)
         else
           let fac = vmnorm (n s) (savf s) (ewt s);
               r0 = 1000 * \<bar>h s\<bar> * ETA * real (n s) * fac;
               r0 = (if r0 = 0 then 1 else r0);
               (ac, w, y) = fold (\<lambda>j (ac, w, y).
                          let yj = y ! j;
                              r = max (sqrteta s * \<bar>yj\<bar>) (r0 / ewt s ! j);
                              y = y[j := y ! j + r];
                              fac = - hl0 / r;
                              ac = call_f f (tn s) y ac;
                              w = fold (\<lambda>i w. set2 w i j ((ac ! i - savf s ! i) * fac)) [1..<Suc (n s)] w;
                              y = y[j := yj]
                          in (ac, w, y)) [1..<Suc (n s)] (acor s, wm s, y);
               s = s\<lparr>acor := ac, wm := w\<rparr>;
               s = s\<lparr>nfe := nfe s + n s\<rparr>;
               s = s\<lparr>pdnorm := fnorm (n s) (wm s) (ewt s) / \<bar>hl0\<bar>\<rparr>;
               s = s\<lparr>wm := fold (\<lambda>i w. set2 w i i (w ! i ! i + 1)) [1..<Suc (n s)] (wm s)\<rparr>
           in case dgefa (wm s) (n s) (ipvt s) of
                (a, p, ier) \<Rightarrow>
                  (s\<lparr>wm := a, ipvt := p, ierpj := (if ier \<noteq> 0 then 1 else ierpj s)\<rparr>, y))"

text \<open>\<^verbatim>\<open>solsy(y)\<close>: returns the state and \<^verbatim>\<open>y\<close>.\<close>

definition solsy :: "lsoda_state \<Rightarrow> real list \<Rightarrow> lsoda_state \<times> real list" where
  "solsy s y =
     (let s = s\<lparr>iersl := 0\<rparr>
      in if miter s \<noteq> 2 then (s, y)
         else (s, dgesl (wm s) (n s) (ipvt s) y 0))"

subsection \<open>The corrector\<close>

text \<open>\<^verbatim>\<open>corfailure(told, rh, ncf, corflag)\<close>: returns the state, \<^verbatim>\<open>*rh\<close>, \<^verbatim>\<open>*ncf\<close> and \<^verbatim>\<open>*corflag\<close>.\<close>

definition corfailure :: "lsoda_state \<Rightarrow> real \<Rightarrow> real \<Rightarrow> nat \<Rightarrow> lsoda_state \<times> real \<times> nat \<times> nat" where
  "corfailure s told rh ncf =
     (let ncf = ncf + 1;
          s = retract told (s\<lparr>rmax := 2\<rparr>)
      in if \<bar>h s\<bar> \<le> hmin s * 1.00001 \<or> ncf = mxncf s then (s, rh, ncf, 2)
         else (s\<lparr>ipup := miter s\<rparr>, 0.25, ncf, 1))"

text \<open>
  The variables of \<^verbatim>\<open>correction\<close>: its parameters \<^verbatim>\<open>y\<close>, \<^verbatim>\<open>*corflag\<close>, \<^verbatim>\<open>*del\<close>, \<^verbatim>\<open>*delp\<close>, \<^verbatim>\<open>*ncf\<close>,
  \<^verbatim>\<open>*rh\<close>, \<^verbatim>\<open>*m\<close> and its local \<^verbatim>\<open>rate\<close>. The last field is not in the source: it counts the
  passes through the branch that restarts the iteration with a new Jacobian.
\<close>

record corr_vars =
  cv_y :: "real list"
  cv_corflag :: nat
  cv_del :: real
  cv_delp :: real
  cv_ncf :: nat
  cv_rh :: real
  cv_m :: nat
  cv_rate :: real
  cv_restarts :: nat

text \<open>
  One pass of the \<^verbatim>\<open>while(1)\<close> loop of \<^verbatim>\<open>correction\<close> is cut at its comments. First the update
  of \<^verbatim>\<open>y\<close>, by functional iteration (\<open>miter = 0\<close>) or by the chord method: each returns the
  state, \<^verbatim>\<open>y\<close> and \<^verbatim>\<open>*del\<close>.
\<close>

definition functional_update :: "lsoda_state \<Rightarrow> real list \<Rightarrow> lsoda_state \<times> real list \<times> real" where
  "functional_update s y =
     (let (sv, y) = fold (\<lambda>i (sv, y).
                      let sv = sv[i := h s * sv ! i - yh s ! 2 ! i]
                      in (sv, y[i := sv ! i - acor s ! i]))
                    [1..<Suc (n s)] (savf s, y);
          del = vmnorm (n s) y (ewt s);
          (y, ac) = fold (\<lambda>i (y, ac). (y[i := yh s ! 1 ! i + el s ! 1 * sv ! i], ac[i := sv ! i]))
                     [1..<Suc (n s)] (y, acor s)
      in (s\<lparr>savf := sv, acor := ac\<rparr>, y, del))"

definition chord_update :: "lsoda_state \<Rightarrow> real list \<Rightarrow> lsoda_state \<times> real list \<times> real" where
  "chord_update s y =
     (let y = fold (\<lambda>i y. y[i := h s * savf s ! i - (yh s ! 2 ! i + acor s ! i)]) [1..<Suc (n s)] y;
          (s, y) = solsy s y;
          del = vmnorm (n s) y (ewt s);
          (ac, y) = fold (\<lambda>i (ac, y).
                       let ac = ac[i := ac ! i + y ! i]
                       in (ac, y[i := yh s ! 1 ! i + el s ! 1 * ac ! i]))
                     [1..<Suc (n s)] (acor s, y)
      in (s\<lparr>acor := ac\<rparr>, y, del))"

text \<open>
  The test for convergence, the block \<^verbatim>\<open>if (*m != 0 || meth_ != 1)\<close>: whether it leaves the
  loop by \<^verbatim>\<open>break\<close>, the state and the variables.
\<close>

definition correction_rate_test ::
  "lsoda_state \<Rightarrow> corr_vars \<Rightarrow> bool \<times> lsoda_state \<times> corr_vars" where
  "correction_rate_test s v =
     (if cv_m v \<noteq> 0 \<or> meth s \<noteq> 1 then
        let rm = (if cv_del v \<le> 1024 * cv_delp v then cv_del v / cv_delp v else 1024);
            v = (if cv_m v \<noteq> 0 then v\<lparr>cv_rate := max (cv_rate v) rm\<rparr> else v);
            s = (if cv_m v \<noteq> 0 then s\<lparr>crate := max (0.2 * crate s) rm\<rparr> else s);
            dcon = cv_del v * min 1 (1.5 * crate s) / (tesco s ! nq s ! 2 * conit s)
        in if dcon \<le> 1 then
             let s = s\<lparr>pdest := max (pdest s) (cv_rate v / \<bar>h s * el s ! 1\<bar>)\<rparr>
             in (True, if pdest s \<noteq> 0 then s\<lparr>pdlast := pdest s\<rparr> else s, v)
           else (False, s, v)
      else (False, s, v))"

text \<open>
  The corrector has not converged: \<^verbatim>\<open>(*m)++\<close> and what follows it. Divergence either calls
  \<^verbatim>\<open>corfailure\<close> and returns (\<open>Inl\<close>) or restarts the iteration with a new Jacobian (\<open>Inr\<close>);
  otherwise the iteration goes on (\<open>Inr\<close>).
\<close>

definition correction_next ::
  "rhs \<Rightarrow> real \<Rightarrow> lsoda_state \<Rightarrow> corr_vars \<Rightarrow> (lsoda_state \<times> corr_vars) + (lsoda_state \<times> corr_vars)" where
  "correction_next f told s v =
     (let v = v\<lparr>cv_m := cv_m v + 1\<rparr>
      in if cv_m v = maxcor s \<or> (cv_m v \<ge> 2 \<and> cv_del v > 2 * cv_delp v) then
           (if miter s = 0 \<or> jcur s = 1 then
              (case corfailure s told (cv_rh v) (cv_ncf v) of
                 (s', rh', ncf', corflag') \<Rightarrow>
                   Inl (s', v\<lparr>cv_rh := rh', cv_ncf := ncf', cv_corflag := corflag'\<rparr>))
            else
              let s = s\<lparr>ipup := miter s\<rparr>;
                  v = v\<lparr>cv_m := 0, cv_rate := 0, cv_del := 0, cv_y := load_y s (cv_y v),
                        cv_restarts := cv_restarts v + 1\<rparr>
              in Inr (s\<lparr>savf := call_f f (tn s) (cv_y v) (savf s), nfe := nfe s + 1\<rparr>, v))
         else
           let v = v\<lparr>cv_delp := cv_del v\<rparr>
           in Inr (s\<lparr>savf := call_f f (tn s) (cv_y v) (savf s), nfe := nfe s + 1\<rparr>, v))"

text \<open>
  The pass from the update on: \<open>Inl\<close> leaves the function (by \<^verbatim>\<open>break\<close> or \<^verbatim>\<open>return\<close>), \<open>Inr\<close>
  is the next pass.
\<close>

definition correction_iterate ::
  "rhs \<Rightarrow> real \<Rightarrow> real \<Rightarrow> lsoda_state \<Rightarrow> corr_vars \<Rightarrow>
     (lsoda_state \<times> corr_vars) + (lsoda_state \<times> corr_vars)" where
  "correction_iterate f pnorm told s v =
     (case (if miter s = 0 then functional_update s (cv_y v) else chord_update s (cv_y v)) of
        (s1, y1, del) \<Rightarrow>
          let v1 = v\<lparr>cv_y := y1, cv_del := del\<rparr>
          in if del \<le> 100 * pnorm * ETA then Inl (s1, v1)
             else
               (case correction_rate_test s1 v1 of
                  (converged, s2, v2) \<Rightarrow>
                    if converged then Inl (s2, v2) else correction_next f told s2 v2))"

text \<open>One whole pass: the block \<^verbatim>\<open>if (*m == 0)\<close> and then the rest.\<close>

definition correction_pass ::
  "rhs \<Rightarrow> real \<Rightarrow> real \<Rightarrow> lsoda_state \<Rightarrow> corr_vars \<Rightarrow>
     (lsoda_state \<times> corr_vars) + (lsoda_state \<times> corr_vars)" where
  "correction_pass f pnorm told s v =
     (if cv_m v = 0 then
        (if ipup s > 0 then
           let (s, y) = prja f s (cv_y v);
               v = v\<lparr>cv_y := y\<rparr>;
               s = s\<lparr>ipup := 0, rc := 1, nslp := nst s, crate := 0.7\<rparr>
           in if ierpj s \<noteq> 0 then
                (case corfailure s told (cv_rh v) (cv_ncf v) of
                   (s', rh', ncf', corflag') \<Rightarrow>
                     Inl (s', v\<lparr>cv_rh := rh', cv_ncf := ncf', cv_corflag := corflag'\<rparr>))
              else
                correction_iterate f pnorm told
                  (s\<lparr>acor := fold (\<lambda>i ac. ac[i := 0]) [1..<Suc (n s)] (acor s)\<rparr>) v
         else
           correction_iterate f pnorm told
             (s\<lparr>acor := fold (\<lambda>i ac. ac[i := 0]) [1..<Suc (n s)] (acor s)\<rparr>) v)
      else correction_iterate f pnorm told s v)"

fun correction_loop ::
  "nat \<Rightarrow> rhs \<Rightarrow> real \<Rightarrow> real \<Rightarrow> lsoda_state \<Rightarrow> corr_vars \<Rightarrow> (lsoda_state \<times> corr_vars) option" where
  "correction_loop 0 f pnorm told s v = None"
| "correction_loop (Suc fuel) f pnorm told s v =
     (case correction_pass f pnorm told s v of
        Inl r \<Rightarrow> Some r
      | Inr (s', v') \<Rightarrow> correction_loop fuel f pnorm told s' v')"

text \<open>
  \<^verbatim>\<open>correction(neq, y, f, corflag, pnorm, del, delp, told, ncf, rh, m, _data)\<close>: the values
  that the caller's \<^verbatim>\<open>*delp\<close>, \<^verbatim>\<open>*ncf\<close> and \<^verbatim>\<open>*rh\<close> hold on entry are parameters.
\<close>

definition correction ::
  "nat \<Rightarrow> rhs \<Rightarrow> lsoda_state \<Rightarrow> real list \<Rightarrow> real \<Rightarrow> real \<Rightarrow> real \<Rightarrow> nat \<Rightarrow> real \<Rightarrow>
     (lsoda_state \<times> corr_vars) option" where
  "correction fuel f s y pnorm delp told ncf rh =
     (let v = \<lparr>cv_y = load_y s y, cv_corflag = 0, cv_del = 0, cv_delp = delp, cv_ncf = ncf,
                cv_rh = rh, cv_m = 0, cv_rate = 0, cv_restarts = 0\<rparr>;
          s = s\<lparr>savf := call_f f (tn s) (cv_y v) (savf s), nfe := nfe s + 1\<rparr>
      in correction_loop fuel f pnorm told s v)"

subsection \<open>Switching the method and the order\<close>

text \<open>
  \<^verbatim>\<open>methodswitch(dsm, pnorm, pdh, rh)\<close>: returns the state, \<^verbatim>\<open>*pdh\<close> and \<^verbatim>\<open>*rh\<close>. \<^verbatim>\<open>pow\<close> with a
  real exponent is \<open>powr\<close>. The first definition is the test made while the Adams method is
  used: whether to switch, \<^verbatim>\<open>rh2\<close>, \<^verbatim>\<open>nqm2\<close> and \<^verbatim>\<open>*pdh\<close>. The second is the whole branch
  \<^verbatim>\<open>if (meth_ == 1)\<close>, the third the rest of the function.
\<close>

definition adams_to_bdf_test ::
  "lsoda_state \<Rightarrow> real \<Rightarrow> real \<Rightarrow> real \<Rightarrow> bool \<times> real \<times> nat \<times> real" where
  "adams_to_bdf_test s dsm pnorm pdh =
     (if dsm \<le> 100 * pnorm * ETA \<or> pdest s = 0 then
        (if irflag s = 0 then (False, 0, 0, pdh)
         else (True, 2, min (nq s) (mxords s), pdh))
      else
        let exsm = 1 / real (l s);
            rh1 = 1 / (1.2 * dsm powr exsm + 0.0000012);
            rh1it = 2 * rh1;
            pdh = pdlast s * \<bar>h s\<bar>;
            rh1it = (if pdh * rh1 > 0.00001 then sm1 s ! nq s / pdh else rh1it);
            rh1 = min rh1 rh1it;
            nqm2 = (if nq s > mxords s then mxords s else nq s);
            rh2 = (if nq s > mxords s then
                     let lm2 = mxords s + 1;
                         exm2 = 1 / real lm2;
                         lm2p1 = lm2 + 1;
                         dm2 = vmnorm (n s) (yh s ! lm2p1) (ewt s) / cm2 s ! mxords s
                     in 1 / (1.2 * dm2 powr exm2 + 0.0000012)
                   else
                     let dm2 = dsm * (cm1 s ! nq s / cm2 s ! nq s)
                     in 1 / (1.2 * dm2 powr exsm + 0.0000012))
        in (\<not> rh2 < ratio s * rh1, rh2, nqm2, pdh))"

definition methodswitch_adams ::
  "lsoda_state \<Rightarrow> real \<Rightarrow> real \<Rightarrow> real \<Rightarrow> real \<Rightarrow> lsoda_state \<times> real \<times> real" where
  "methodswitch_adams s dsm pnorm pdh rh =
     (if nq s > 5 then (s, pdh, rh)
      else
        (case adams_to_bdf_test s dsm pnorm pdh of
           (go, rh2, nqm2, pdh') \<Rightarrow>
             if go then
               (s\<lparr>icount := 20, meth := 2, miter := jtyp s, pdlast := 0, nq := nqm2, l := nqm2 + 1\<rparr>,
                pdh', rh2)
             else (s, pdh', rh)))"

definition methodswitch_bdf ::
  "lsoda_state \<Rightarrow> real \<Rightarrow> real \<Rightarrow> real \<Rightarrow> real \<Rightarrow> lsoda_state \<times> real \<times> real" where
  "methodswitch_bdf s dsm pnorm pdh rh =
     (let exsm = 1 / real (l s);
          nqm1 = (if mxordn s < nq s then mxordn s else nq s);
          exm1 = (if mxordn s < nq s then 1 / real (mxordn s + 1) else exsm);
          dm1 = (if mxordn s < nq s
                 then vmnorm (n s) (yh s ! (mxordn s + 1 + 1)) (ewt s) / cm1 s ! mxordn s
                 else dsm * (cm2 s ! nq s / cm1 s ! nq s));
          rh1 = 1 / (1.2 * dm1 powr exm1 + 0.0000012);
          rh1it = 2 * rh1;
          pdh = pdnorm s * \<bar>h s\<bar>;
          rh1it = (if pdh * rh1 > 0.00001 then sm1 s ! nqm1 / pdh else rh1it);
          rh1 = min rh1 rh1it;
          rh2 = 1 / (1.2 * dsm powr exsm + 0.0000012)
      in if rh1 * ratio s < 5 * rh2 then (s, pdh, rh)
         else
           let alpha = max 0.001 rh1;
               dm1 = dm1 * alpha powr exm1
           in if dm1 \<le> 1000 * ETA * pnorm then (s, pdh, rh)
              else
                (s\<lparr>icount := 20, meth := 1, miter := 0, pdlast := 0, nq := nqm1, l := nqm1 + 1\<rparr>,
                 pdh, rh1))"

definition methodswitch ::
  "lsoda_state \<Rightarrow> real \<Rightarrow> real \<Rightarrow> real \<Rightarrow> real \<Rightarrow> lsoda_state \<times> real \<times> real" where
  "methodswitch s dsm pnorm pdh rh =
     (if meth s = 1 then methodswitch_adams s dsm pnorm pdh rh
      else methodswitch_bdf s dsm pnorm pdh rh)"

definition endstoda :: "lsoda_state \<Rightarrow> lsoda_state" where
  "endstoda s =
     (let r = 1 / tesco s ! nqu s ! 2
      in s\<lparr>acor := fold (\<lambda>i ac. ac[i := ac ! i * r]) [1..<Suc (n s)] (acor s),
           hold := h s, jstart := 1\<rparr>)"

text \<open>
  \<^verbatim>\<open>orderswitch(rhup, dsm, pdh, rh, orderflag)\<close>: returns the state, \<^verbatim>\<open>*rhup\<close>, \<^verbatim>\<open>*pdh\<close>, \<^verbatim>\<open>*rh\<close> and
  \<^verbatim>\<open>*orderflag\<close>. It is cut in three. First the three factors: the state, \<^verbatim>\<open>*pdh\<close>, \<^verbatim>\<open>*rhup\<close>,
  \<^verbatim>\<open>rhsm\<close> and \<^verbatim>\<open>rhdn\<close>, up to the end of the block \<^verbatim>\<open>if (meth_ == 1)\<close>.
\<close>

definition orderswitch_factors ::
  "lsoda_state \<Rightarrow> real \<Rightarrow> real \<Rightarrow> real \<Rightarrow> lsoda_state \<times> real \<times> real \<times> real \<times> real" where
  "orderswitch_factors s rhup dsm pdh =
     (let exsm = 1 / real (l s);
          rhsm = 1 / (1.2 * dsm powr exsm + 0.0000012);
          rhdn = (if nq s \<noteq> 1 then
                    let ddn = vmnorm (n s) (yh s ! l s) (ewt s) / tesco s ! nq s ! 1;
                        exdn = 1 / real (nq s)
                    in 1 / (1.3 * ddn powr exdn + 0.0000013)
                  else 0)
      in if meth s = 1 then
           let pdh = max (\<bar>h s\<bar> * pdlast s) 0.000001;
               rhup = (if l s < lmax s then min rhup (sm1 s ! l s / pdh) else rhup);
               rhsm = min rhsm (sm1 s ! nq s / pdh);
               rhdn = (if nq s > 1 then min rhdn (sm1 s ! (nq s - 1) / pdh) else rhdn)
           in (s\<lparr>pdest := 0\<rparr>, pdh, rhup, rhsm, rhdn)
         else (s, pdh, rhup, rhsm, rhdn))"

text \<open>
  Then the choice among the three orders: it either returns at once (\<open>Inl\<close>, the order is
  raised or nothing changes) or leaves \<^verbatim>\<open>newq\<close> and \<^verbatim>\<open>*rh\<close> (\<open>Inr\<close>). \<^verbatim>\<open>newq = nq - 1\<close> is a
  subtraction of \<^verbatim>\<open>size_t\<close>.
\<close>

definition orderswitch_choice ::
  "lsoda_state \<Rightarrow> real \<Rightarrow> real \<Rightarrow> real \<Rightarrow> real \<Rightarrow>
     (lsoda_state \<times> real \<times> real \<times> real \<times> nat) + (nat \<times> real)" where
  "orderswitch_choice s pdh rhup rhsm rhdn =
     (if rhsm \<ge> rhup then
        (if rhsm \<ge> rhdn then Inr (nq s, rhsm)
         else Inr (sz_sub (nq s) 1, if kflag s < 0 \<and> rhdn > 1 then 1 else rhdn))
      else
        (if rhup \<le> rhdn then Inr (sz_sub (nq s) 1, if kflag s < 0 \<and> rhdn > 1 then 1 else rhdn)
         else
           (if rhup \<ge> 1.1 then
              let r = el s ! l s / real (l s);
                  s = s\<lparr>nq := l s\<rparr>;
                  s = s\<lparr>l := nq s + 1\<rparr>
              in Inl (s\<lparr>yh := fold (\<lambda>i a. set2 a (l s) i (acor s ! i * r)) [1..<Suc (n s)] (yh s)\<rparr>,
                      rhup, pdh, rhup, 2)
            else Inl (s\<lparr>ialth := 3\<rparr>, rhup, pdh, rhup, 0))))"

text \<open>Last the tests on \<^verbatim>\<open>newq\<close> and \<^verbatim>\<open>*rh\<close>, from the ten percent test to the end.\<close>

definition orderswitch_apply ::
  "lsoda_state \<Rightarrow> real \<Rightarrow> real \<Rightarrow> nat \<Rightarrow> real \<Rightarrow> lsoda_state \<times> real \<times> real \<times> real \<times> nat" where
  "orderswitch_apply s pdh rhup newq rh =
     (if (if meth s = 1 then rh * pdh * 1.00001 < sm1 s ! newq \<and> kflag s = 0 \<and> rh < 1.1
          else kflag s = 0 \<and> rh < 1.1)
      then (s\<lparr>ialth := 3\<rparr>, rhup, pdh, rh, 0)
      else
        let rh = (if kflag s \<le> - 2 then min rh 0.2 else rh)
        in if newq = nq s then (s, rhup, pdh, rh, 1)
           else (s\<lparr>nq := newq, l := newq + 1\<rparr>, rhup, pdh, rh, 2))"

definition orderswitch ::
  "lsoda_state \<Rightarrow> real \<Rightarrow> real \<Rightarrow> real \<Rightarrow> real \<Rightarrow> lsoda_state \<times> real \<times> real \<times> real \<times> nat" where
  "orderswitch s rhup dsm pdh rh =
     (case orderswitch_factors s rhup dsm pdh of
        (s1, pdh1, rhup1, rhsm, rhdn) \<Rightarrow>
          (case orderswitch_choice s1 pdh1 rhup1 rhsm rhdn of
             Inl r \<Rightarrow> r
           | Inr (newq, rh1) \<Rightarrow> orderswitch_apply s1 pdh1 rhup1 newq rh1))"

subsection \<open>One step\<close>

text \<open>
  The variables of \<^verbatim>\<open>stoda\<close> that live across its loops: the parameter \<^verbatim>\<open>y\<close> and the locals
  \<^verbatim>\<open>del\<close>, \<^verbatim>\<open>delp\<close>, \<^verbatim>\<open>rh\<close>, \<^verbatim>\<open>pdh\<close>, \<^verbatim>\<open>ncf\<close>, \<^verbatim>\<open>m\<close>. The other locals are set before each use.
\<close>

record stoda_vars =
  sv_y :: "real list"
  sv_del :: real
  sv_delp :: real
  sv_rh :: real
  sv_pdh :: real
  sv_ncf :: nat
  sv_m :: nat

text \<open>The start of \<^verbatim>\<open>stoda\<close>, up to the loops: returns the state, \<^verbatim>\<open>rh\<close> and \<^verbatim>\<open>pdh\<close>.\<close>

definition stoda_start :: "lsoda_state \<Rightarrow> lsoda_state \<times> real \<times> real" where
  "stoda_start s =
     (let s = s\<lparr>kflag := 0, ierpj := 0, iersl := 0, jcur := 0\<rparr>;
          rh = 0;
          pdh = 0
      in if jstart s = 0 then
           let s = s\<lparr>lmax := maxord s + 1, nq := 1, l := 2, ialth := 2, rmax := 10000, rc := 0,
                     el0 := 1, crate := 0.7, hold := h s, nslp := 0, ipup := miter s, iret := 3,
                     icount := 20, irflag := 0, pdest := 0, pdlast := 0, ratio := 5\<rparr>;
               s = cfode s 2;
               s = s\<lparr>cm2 := fold (\<lambda>i c. c[i := tesco s ! i ! 2 * elco s ! i ! (i + 1)]) [1..<6] (cm2 s)\<rparr>;
               s = cfode s 1;
               s = s\<lparr>cm1 := fold (\<lambda>i c. c[i := tesco s ! i ! 2 * elco s ! i ! (i + 1)]) [1..<13] (cm1 s)\<rparr>
           in (resetcoeff s, rh, pdh)
         else if jstart s = - 1 then
           let s = s\<lparr>ipup := miter s, lmax := maxord s + 1\<rparr>;
               s = (if ialth s = 1 then s\<lparr>ialth := 2\<rparr> else s);
               s = (if meth s \<noteq> mused s
                    then resetcoeff ((cfode s (meth s))\<lparr>ialth := l s, iret := 1\<rparr>)
                    else s)
           in if h s \<noteq> hold s then scaleh (s\<lparr>h := hold s\<rparr>) (h s / hold s) pdh
              else (s, rh, pdh)
         else if jstart s = - 2 then
           (if h s \<noteq> hold s then scaleh (s\<lparr>h := hold s\<rparr>) (h s / hold s) pdh
            else (s, rh, pdh))
         else (s, rh, pdh))"

text \<open>
  The inner \<^verbatim>\<open>while(1)\<close> loop of \<^verbatim>\<open>stoda\<close>: prediction and correction. The loop ends with
  \<open>Inl\<close>, the return from \<^verbatim>\<open>stoda\<close> with \<open>kflag = -2\<close>, or with \<open>Inr\<close>, the \<^verbatim>\<open>break\<close> to the error
  test, with \<^verbatim>\<open>pnorm\<close>. The first definition is one pass: its outer \<open>Inl\<close> ends the loop, its
  outer \<open>Inr\<close> is the \<^verbatim>\<open>continue\<close>.
\<close>

definition stoda_predict_correct_pass ::
  "nat \<Rightarrow> rhs \<Rightarrow> real \<Rightarrow> lsoda_state \<Rightarrow> stoda_vars \<Rightarrow>
     (((lsoda_state \<times> real list) + (lsoda_state \<times> stoda_vars \<times> real)) + (lsoda_state \<times> stoda_vars)) option" where
  "stoda_predict_correct_pass fuel f told s v =
     (let s = (if \<bar>rc s - 1\<bar> > ccmax s then s\<lparr>ipup := miter s\<rparr> else s);
          s = (if nst s \<ge> nslp s + msbp s then s\<lparr>ipup := miter s\<rparr> else s);
          s = predict s;
          pnorm = vmnorm (n s) (yh s ! 1) (ewt s)
      in case correction fuel f s (sv_y v) pnorm (sv_delp v) told (sv_ncf v) (sv_rh v) of
           None \<Rightarrow> None
         | Some (s', c) \<Rightarrow>
             let v = v\<lparr>sv_y := cv_y c, sv_del := cv_del c, sv_delp := cv_delp c,
                       sv_ncf := cv_ncf c, sv_rh := cv_rh c, sv_m := cv_m c\<rparr>
             in if cv_corflag c = 0 then Some (Inl (Inr (s', v, pnorm)))
                else if cv_corflag c = 1 then
                  (case scaleh s' (max (sv_rh v) (hmin s' / \<bar>h s'\<bar>)) (sv_pdh v) of
                     (s'', rh', pdh') \<Rightarrow> Some (Inr (s'', v\<lparr>sv_rh := rh', sv_pdh := pdh'\<rparr>)))
                else if cv_corflag c = 2 then
                  Some (Inl (Inl (s'\<lparr>kflag := - 2, hold := h s', jstart := 1\<rparr>, sv_y v)))
                else Some (Inr (s', v)))"

fun stoda_predict_correct ::
  "nat \<Rightarrow> rhs \<Rightarrow> real \<Rightarrow> lsoda_state \<Rightarrow> stoda_vars \<Rightarrow>
     ((lsoda_state \<times> real list) + (lsoda_state \<times> stoda_vars \<times> real)) option" where
  "stoda_predict_correct 0 f told s v = None"
| "stoda_predict_correct (Suc fuel) f told s v =
     (case stoda_predict_correct_pass (Suc fuel) f told s v of
        None \<Rightarrow> None
      | Some (Inl r) \<Rightarrow> Some r
      | Some (Inr (s', v')) \<Rightarrow> stoda_predict_correct fuel f told s' v')"

text \<open>
  The step is accepted (\<open>dsm \<le> 1\<close>): every path ends in \<^verbatim>\<open>endstoda(); break;\<close>. The block is
  cut in three. First the update of the counters and of the history, and \<^verbatim>\<open>icount--\<close>.
\<close>

definition stoda_commit :: "lsoda_state \<Rightarrow> lsoda_state" where
  "stoda_commit s =
     (let s = s\<lparr>kflag := 0, nst := nst s + 1, hu := h s, nqu := nq s, mused := meth s\<rparr>;
          s = s\<lparr>yh := fold (\<lambda>j a. let r = el s ! j
                                  in fold (\<lambda>i a. set2 a j i (a ! j ! i + r * acor s ! i)) [1..<Suc (n s)] a)
                        [1..<Suc (l s)] (yh s)\<rparr>
      in s\<lparr>icount := icount s - 1\<rparr>)"

text \<open>
  The selection of step size and order when \<open>ialth\<close> has reached 0: the factor \<^verbatim>\<open>rhup\<close>, the
  call of \<^verbatim>\<open>orderswitch\<close> and what follows it, down to the end of the accepted step.
\<close>

definition stoda_raise_factor :: "lsoda_state \<Rightarrow> lsoda_state \<times> real" where
  "stoda_raise_factor s =
     (if l s \<noteq> lmax s then
        let s = s\<lparr>savf := fold (\<lambda>i sv. sv[i := acor s ! i - yh s ! lmax s ! i]) [1..<Suc (n s)] (savf s)\<rparr>;
            dup = vmnorm (n s) (savf s) (ewt s) / tesco s ! nq s ! 3;
            exup = 1 / real (l s + 1)
        in (s, 1 / (1.4 * dup powr exup + 0.0000014))
      else (s, 0))"

definition stoda_finish :: "lsoda_state \<Rightarrow> lsoda_state" where
  "stoda_finish s =
     (if ialth s > 1 \<or> l s = lmax s then endstoda s
      else endstoda (s\<lparr>yh := fold (\<lambda>i a. set2 a (lmax s) i (acor s ! i)) [1..<Suc (n s)] (yh s)\<rparr>))"

definition stoda_select :: "lsoda_state \<Rightarrow> real \<Rightarrow> real \<Rightarrow> real \<Rightarrow> lsoda_state" where
  "stoda_select s dsm pdh rh =
     (case stoda_raise_factor s of
        (s0, rhup) \<Rightarrow>
          (case orderswitch s0 rhup dsm pdh rh of
             (s', rhup', pdh', rh', orderflag) \<Rightarrow>
               if orderflag = 0 then endstoda s'
               else if orderflag = 1 then
                 endstoda ((fst (scaleh s' (max rh' (hmin s' / \<bar>h s'\<bar>)) pdh'))\<lparr>rmax := 10\<rparr>)
               else if orderflag = 2 then
                 endstoda ((fst (scaleh (resetcoeff s') (max rh' (hmin s' / \<bar>h s'\<bar>)) pdh'))\<lparr>rmax := 10\<rparr>)
               else stoda_finish s'))"

definition stoda_accept :: "lsoda_state \<Rightarrow> stoda_vars \<Rightarrow> real \<Rightarrow> real \<Rightarrow> lsoda_state \<times> real list" where
  "stoda_accept s v dsm pnorm =
     (let s = stoda_commit s;
          consider_switch = (icount s < 0)
      in case (if consider_switch then methodswitch s dsm pnorm (sv_pdh v) (sv_rh v)
               else (s, sv_pdh v, sv_rh v)) of
           (s1, pdh, rh) \<Rightarrow>
             if consider_switch \<and> meth s1 \<noteq> mused s1 then
               (endstoda ((fst (scaleh s1 (max rh (hmin s1 / \<bar>h s1\<bar>)) pdh))\<lparr>rmax := 10\<rparr>), sv_y v)
             else
               let s2 = s1\<lparr>ialth := sz_sub (ialth s1) 1\<rparr>
               in if ialth s2 = 0 then (stoda_select s2 dsm pdh rh, sv_y v)
                  else (stoda_finish s2, sv_y v))"

text \<open>
  The error test failed (\<open>dsm > 1\<close>): \<open>Inl\<close> is the \<^verbatim>\<open>break\<close> that returns from \<^verbatim>\<open>stoda\<close>, \<open>Inr\<close> the
  \<^verbatim>\<open>continue\<close> that tries the step again.
\<close>

definition stoda_reject ::
  "rhs \<Rightarrow> real \<Rightarrow> lsoda_state \<Rightarrow> stoda_vars \<Rightarrow> real \<Rightarrow>
     (lsoda_state \<times> real list) + (lsoda_state \<times> stoda_vars)" where
  "stoda_reject f told s v dsm =
     (let s = s\<lparr>kflag := kflag s - 1\<rparr>;
          s = retract told s;
          s = s\<lparr>rmax := 2\<rparr>
      in if \<bar>h s\<bar> \<le> hmin s * 1.00001 then
           Inl (s\<lparr>kflag := - 1, hold := h s, jstart := 1\<rparr>, sv_y v)
         else if kflag s > - 3 then
           (case orderswitch s 0 dsm (sv_pdh v) (sv_rh v) of
              (s', rhup', pdh', rh', orderflag) \<Rightarrow>
                if orderflag = 1 \<or> orderflag = 0 then
                  (let rh' = (if orderflag = 0 then min rh' 0.2 else rh')
                   in case scaleh s' (max rh' (hmin s' / \<bar>h s'\<bar>)) pdh' of
                        (s'', rh'', pdh'') \<Rightarrow> Inr (s'', v\<lparr>sv_rh := rh'', sv_pdh := pdh''\<rparr>))
                else if orderflag = 2 then
                  (case scaleh (resetcoeff s') (max rh' (hmin s' / \<bar>h s'\<bar>)) pdh' of
                     (s'', rh'', pdh'') \<Rightarrow> Inr (s'', v\<lparr>sv_rh := rh'', sv_pdh := pdh''\<rparr>))
                else Inr (s', v\<lparr>sv_rh := rh', sv_pdh := pdh'\<rparr>))
         else if kflag s = - 10 then
           Inl (s\<lparr>kflag := - 1, hold := h s, jstart := 1\<rparr>, sv_y v)
         else
           let rh = max (hmin s / \<bar>h s\<bar>) 0.1;
               s = s\<lparr>h := h s * rh\<rparr>;
               y = load_y s (sv_y v);
               s = s\<lparr>savf := call_f f (tn s) y (savf s), nfe := nfe s + 1\<rparr>;
               s = s\<lparr>yh := fold (\<lambda>i a. set2 a 2 i (h s * savf s ! i)) [1..<Suc (n s)] (yh s)\<rparr>;
               s = s\<lparr>ipup := miter s, ialth := 5\<rparr>;
               v = v\<lparr>sv_y := y, sv_rh := rh\<rparr>
           in if nq s = 1 then Inr (s, v)
              else Inr (resetcoeff (s\<lparr>nq := 1, l := 2\<rparr>), v))"

text \<open>The code between the two loops: the error estimate \<^verbatim>\<open>dsm\<close> and the test.\<close>

definition stoda_error_test ::
  "rhs \<Rightarrow> real \<Rightarrow> lsoda_state \<Rightarrow> stoda_vars \<Rightarrow> real \<Rightarrow>
     (lsoda_state \<times> real list) + (lsoda_state \<times> stoda_vars)" where
  "stoda_error_test f told s v pnorm =
     (let s = s\<lparr>jcur := 0\<rparr>;
          dsm = (if sv_m v = 0 then sv_del v / tesco s ! nq s ! 2
                 else vmnorm (n s) (acor s) (ewt s) / tesco s ! nq s ! 2)
      in if dsm \<le> 1 then Inl (stoda_accept s v dsm pnorm)
         else stoda_reject f told s v dsm)"

text \<open>The outer \<^verbatim>\<open>while(1)\<close> loop of \<^verbatim>\<open>stoda\<close>, and first one pass of it.\<close>

definition stoda_pass ::
  "nat \<Rightarrow> rhs \<Rightarrow> real \<Rightarrow> lsoda_state \<Rightarrow> stoda_vars \<Rightarrow>
     ((lsoda_state \<times> real list) + (lsoda_state \<times> stoda_vars)) option" where
  "stoda_pass fuel f told s v =
     (case stoda_predict_correct fuel f told s v of
        None \<Rightarrow> None
      | Some (Inl r) \<Rightarrow> Some (Inl r)
      | Some (Inr (s', v', pnorm)) \<Rightarrow> Some (stoda_error_test f told s' v' pnorm))"

fun stoda_loop ::
  "nat \<Rightarrow> rhs \<Rightarrow> real \<Rightarrow> lsoda_state \<Rightarrow> stoda_vars \<Rightarrow> (lsoda_state \<times> real list) option" where
  "stoda_loop 0 f told s v = None"
| "stoda_loop (Suc fuel) f told s v =
     (case stoda_pass (Suc fuel) f told s v of
        None \<Rightarrow> None
      | Some (Inl r) \<Rightarrow> Some r
      | Some (Inr (s', v')) \<Rightarrow> stoda_loop fuel f told s' v')"

text \<open>\<^verbatim>\<open>stoda(neq, y, f, _data)\<close>: returns the state and \<^verbatim>\<open>y\<close>, or the exception.\<close>

definition stoda ::
  "nat \<Rightarrow> rhs \<Rightarrow> lsoda_state \<Rightarrow> nat \<Rightarrow> real list \<Rightarrow> (string + lsoda_state \<times> real list) option" where
  "stoda fuel f s neq y =
     (if neq + 1 \<noteq> length y then Some (Inl ''neq + 1 != y.size()'')
      else
        let told = tn s
        in case stoda_start s of
             (s', rh, pdh) \<Rightarrow>
               map_option Inr
                 (stoda_loop fuel f told s'
                    \<lparr>sv_y = y, sv_del = 0, sv_delp = 0, sv_rh = rh, sv_pdh = pdh, sv_ncf = 0, sv_m = 0\<rparr>))"

subsection \<open>The driver\<close>

text \<open>
  What a call of \<^verbatim>\<open>lsoda\<close> leaves behind: the state, \<^verbatim>\<open>y\<close>, \<^verbatim>\<open>*t\<close>, \<^verbatim>\<open>*istate\<close>, and which of the
  return blocks of the source ended the call: \<^verbatim>\<open>terminate\<close> (illegal input), \<^verbatim>\<open>terminate2\<close>
  (the other error conditions), or a successful return (\<^verbatim>\<open>successreturn\<close>, or the
  interpolation at \<^verbatim>\<open>tout\<close> followed by \<^verbatim>\<open>*istate = 2\<close>).
\<close>

datatype exit_kind = Illegal_input | Error_return | Success

record lsoda_result =
  r_state :: lsoda_state
  r_y :: "real list"
  r_t :: real
  r_istate :: int
  r_exit :: exit_kind

text \<open>
  A block of \<^verbatim>\<open>lsoda\<close> throws (\<^verbatim>\<open>Rcpp::stop\<close>), returns from \<^verbatim>\<open>lsoda\<close>, or goes on to the next
  block.
\<close>

datatype 'a flow = Stopped string | Returned lsoda_result | Next 'a

text \<open>\<^verbatim>\<open>terminate(istate); return;\<close>\<close>

definition ret_terminate :: "lsoda_state \<Rightarrow> real list \<Rightarrow> real \<Rightarrow> int \<Rightarrow> lsoda_result" where
  "ret_terminate s y t istate =
     (case terminate s istate of
        (s', istate') \<Rightarrow>
          \<lparr>r_state = s', r_y = y, r_t = t, r_istate = istate', r_exit = Illegal_input\<rparr>)"

text \<open>\<^verbatim>\<open>terminate2(y, t); return;\<close> with the value that \<^verbatim>\<open>*istate\<close> has at that point.\<close>

definition ret_terminate2 :: "lsoda_state \<Rightarrow> real list \<Rightarrow> int \<Rightarrow> lsoda_result" where
  "ret_terminate2 s y istate =
     (case terminate2 s y of
        (s', y', t') \<Rightarrow>
          \<lparr>r_state = s', r_y = y', r_t = t', r_istate = istate, r_exit = Error_return\<rparr>)"

text \<open>\<^verbatim>\<open>successreturn(y, t, itask, ihit, tcrit, istate); return;\<close>\<close>

definition ret_success :: "lsoda_state \<Rightarrow> real list \<Rightarrow> int \<Rightarrow> int \<Rightarrow> real \<Rightarrow> lsoda_result" where
  "ret_success s y itask ihit tcrit =
     (case successreturn s y itask ihit tcrit of
        (s', y', t', istate') \<Rightarrow>
          \<lparr>r_state = s', r_y = y', r_t = t', r_istate = istate', r_exit = Success\<rparr>)"

text \<open>\<^verbatim>\<open>*t = tout; *istate = 2; illin = 0; return;\<close> after \<^verbatim>\<open>intdy(tout, 0, y, &iflag)\<close> has written \<^verbatim>\<open>y\<close>.\<close>

definition ret_at_tout :: "lsoda_state \<Rightarrow> real list \<Rightarrow> real \<Rightarrow> lsoda_result" where
  "ret_at_tout s y tout =
     \<lparr>r_state = s\<lparr>illin := 0\<rparr>, r_y = y, r_t = tout, r_istate = 2, r_exit = Success\<rparr>"

text \<open>
  Block b: the checks of the inputs and the optional inputs, for \<open>*istate\<close> 1 or 3. It
  leaves the state and the local \<^verbatim>\<open>h0\<close>.
\<close>

definition lsoda_block_b ::
  "lsoda_state \<Rightarrow> nat \<Rightarrow> real list \<Rightarrow> real \<Rightarrow> real \<Rightarrow> int \<Rightarrow> int \<Rightarrow> int \<Rightarrow> int list \<Rightarrow> real list \<Rightarrow>
     (lsoda_state \<times> real) flow" where
  "lsoda_block_b s neq y t tout istate iopt jt iworks rworks =
     (if istate = 1 \<or> istate = 3 then
        let s = s\<lparr>ntrep := 0\<rparr>
        in if neq \<le> 0 then Returned (ret_terminate s y t istate)
           else if istate = 3 \<and> neq > n s then Returned (ret_terminate s y t istate)
           else
             let s = s\<lparr>n := neq\<rparr>
             in if itol s < 1 \<or> itol s > 4 then Returned (ret_terminate s y t istate)
                else if iopt < 0 \<or> iopt > 1 then Returned (ret_terminate s y t istate)
                else if jt = 3 \<or> jt < 1 \<or> jt > 5 then Returned (ret_terminate s y t istate)
                else
                  let s = s\<lparr>jtyp := sz_of_int jt\<rparr>;
                      s = (if jt > 2 then s\<lparr>ml := sz_of_int (iworks ! 0), mu := sz_of_int (iworks ! 1)\<rparr>
                           else s)
                  in if jt > 2 \<and> ml s \<ge> n s then Returned (ret_terminate s y t istate)
                     else if jt > 2 \<and> mu s \<ge> n s then Returned (ret_terminate s y t istate)
                     else if iopt = 0 then
                       let s = s\<lparr>ixpr := 0, mxstep := 5000, mxhnil := 10, hmxi := 0, hmin := 0\<rparr>
                       in Next (if istate = 1 then s\<lparr>mxordn := mord s ! 0, mxords := mord s ! 1\<rparr> else s, 0)
                     else
                       let s = s\<lparr>ixpr := sz_of_int (iworks ! 2)\<rparr>
                       in if ixpr s > 1 then Returned (ret_terminate s y t istate)
                          else
                            let s = s\<lparr>mxstep := sz_of_int (iworks ! 3)\<rparr>;
                                s = (if mxstep s = 0 then s\<lparr>mxstep := 5000\<rparr> else s);
                                s = s\<lparr>mxhnil := sz_of_int (iworks ! 4)\<rparr>;
                                h0 = (if istate = 1 then rworks ! 1 else 0);
                                s = (if istate = 1 then
                                       let s = s\<lparr>mxordn := sz_of_int (iworks ! 5)\<rparr>;
                                           s = (if mxordn s = 0 then s\<lparr>mxordn := 100\<rparr> else s);
                                           s = s\<lparr>mxordn := min (mxordn s) (mord s ! 0)\<rparr>;
                                           s = s\<lparr>mxords := sz_of_int (iworks ! 6)\<rparr>;
                                           s = (if mxords s = 0 then s\<lparr>mxords := 100\<rparr> else s)
                                       in s\<lparr>mxords := min (mxords s) (mord s ! 1)\<rparr>
                                     else s)
                            in if istate = 1 \<and> (tout - t) * h0 < 0 then Returned (ret_terminate s y t istate)
                               else
                                 let hmax = rworks ! 2
                                 in if hmax < 0 then Returned (ret_terminate s y t istate)
                                    else
                                      let s = s\<lparr>hmxi := (if hmax > 0 then 1 / hmax else 0)\<rparr>;
                                          s = s\<lparr>hmin := rworks ! 3\<rparr>
                                      in if hmin s < 0 then Returned (ret_terminate s y t istate)
                                         else Next (s, h0)
      else Next (s, 0))"

text \<open>The allocation for \<open>*istate = 1\<close>: \<^verbatim>\<open>resize\<close> keeps what the vectors hold already.\<close>

definition lsoda_alloc :: "lsoda_state \<Rightarrow> lsoda_state" where
  "lsoda_alloc s =
     (let s = s\<lparr>sqrteta := sqrt ETA, meth := 1, nyh := n s\<rparr>;
          lenyh = 1 + max (mxordn s) (mxords s)
      in s\<lparr>yh := resize (yh s) (lenyh + 1) (replicate (nyh s + 1) 0),
           wm := resize (wm s) (nyh s + 1) (replicate (nyh s + 1) 0),
           ewt := resize (ewt s) (1 + nyh s) 0,
           savf := resize (savf s) (1 + nyh s) 0,
           acor := resize (acor s) (nyh s + 1) 0,
           ipvt := resize (ipvt s) (nyh s + 1) 0\<rparr>)"

text \<open>The check of \<^verbatim>\<open>rtol_\<close> and \<^verbatim>\<open>atol_\<close>: some component has a negative tolerance.\<close>

definition tol_illegal :: "lsoda_state \<Rightarrow> bool" where
  "tol_illegal s =
     list_ex (\<lambda>i. (if itol s \<ge> 3 then rtol s ! i else rtol s ! 1) < 0 \<or>
                   (if itol s = 2 \<or> itol s = 4 then atol s ! i else atol s ! 1) < 0)
             [1..<Suc (n s)]"

text \<open>
  Block c, for \<open>*istate = 1\<close>: the remaining initialisations, the first call of \<^verbatim>\<open>f\<close> and the
  initial step size. It leaves the state and the local \<^verbatim>\<open>tcrit\<close>.
\<close>

definition lsoda_block_c ::
  "rhs \<Rightarrow> lsoda_state \<Rightarrow> real list \<Rightarrow> real \<Rightarrow> real \<Rightarrow> int \<Rightarrow> int \<Rightarrow> real \<Rightarrow> real list \<Rightarrow>
     (lsoda_state \<times> real) flow" where
  "lsoda_block_c f s y t tout itask istate h0 rworks =
     (let s = s\<lparr>tn := t, tsw := t, maxord := mxordn s\<rparr>;
          tcrit = (if itask = 4 \<or> itask = 5 then rworks ! 0 else 0)
      in if (itask = 4 \<or> itask = 5) \<and> (tcrit - tout) * (tout - t) < 0
         then Returned (ret_terminate s y t istate)
         else
           let h0 = (if (itask = 4 \<or> itask = 5) \<and> h0 \<noteq> 0 \<and> (t + h0 - tcrit) * h0 > 0
                     then tcrit - t else h0);
               s = s\<lparr>jstart := 0, nhnil := 0, nst := 0, nje := 0, nslast := 0, hu := 0, nqu := 0,
                     mused := 0, miter := 0, ccmax := 0.3, maxcor := 3, msbp := 20, mxncf := 10\<rparr>;
               lenyh = 1 + max (mxordn s) (mxords s)
           in if length (yh s) \<noteq> lenyh + 1 then Stopped ''(int)yh_.size() != lenyh + 1''
              else if length (yh s ! 0) \<noteq> nyh s + 1 then Stopped ''yh_[0].size() != nyh + 1''
              else
                let s = s\<lparr>yh := (yh s)[2 := call_f f t y (yh s ! 2)], nfe := 1\<rparr>;
                    s = s\<lparr>yh := fold (\<lambda>i a. set2 a 1 i (y ! i)) [1..<Suc (n s)] (yh s)\<rparr>;
                    s = s\<lparr>nq := 1, h := 1\<rparr>;
                    s = ewset s y;
                    (e, ok) = invert_ewt [1..<Suc (n s)] (ewt s);
                    s = s\<lparr>ewt := e\<rparr>
                in if \<not> ok then Returned (ret_terminate2 s y istate)
                   else
                     let tdist = \<bar>tout - t\<bar>;
                         w0 = max \<bar>t\<bar> \<bar>tout\<bar>
                     in if h0 = 0 \<and> tdist < 2 * ETA * w0 then Returned (ret_terminate s y t istate)
                        else
                          let h0 =
                                (if h0 = 0 then
                                   let tol = rtol s ! 1;
                                       tol = (if itol s > 2
                                              then fold (\<lambda>i tol. max tol (rtol s ! i)) [2..<Suc (n s)] tol
                                              else tol);
                                       tol = (if tol \<le> 0 then
                                                fold (\<lambda>i tol.
                                                        let atoli = (if itol s = 2 \<or> itol s = 4
                                                                     then atol s ! i else atol s ! 1);
                                                            ayi = \<bar>y ! i\<bar>
                                                        in if ayi \<noteq> 0 then max tol (atoli / ayi) else tol)
                                                     [1..<Suc (n s)] tol
                                              else tol);
                                       tol = max tol (100 * ETA);
                                       tol = min tol 0.001;
                                       sum = vmnorm (n s) (yh s ! 2) (ewt s);
                                       sum = 1 / (tol * w0 * w0) + tol * sum * sum;
                                       h0 = 1 / sqrt sum;
                                       h0 = min h0 tdist
                                   in sign h0 (tout - t)
                                 else h0);
                              rh = \<bar>h0\<bar> * hmxi s;
                              h0 = (if rh > 1 then h0 / rh else h0);
                              s = s\<lparr>h := h0\<rparr>;
                              s = s\<lparr>yh := fold (\<lambda>i a. set2 a 2 i (a ! 2 ! i * h0)) [1..<Suc (n s)] (yh s)\<rparr>
                          in Next (s, tcrit))"

text \<open>
  Block d, for \<open>*istate\<close> 2 or 3: the stop conditions before a step is taken. It leaves the
  state and the local \<^verbatim>\<open>tcrit\<close> (\<^verbatim>\<open>ihit\<close> is 0 wherever the block goes on).
\<close>

definition lsoda_block_d ::
  "lsoda_state \<Rightarrow> real list \<Rightarrow> real \<Rightarrow> real \<Rightarrow> int \<Rightarrow> int \<Rightarrow> real list \<Rightarrow> (lsoda_state \<times> real) flow" where
  "lsoda_block_d s y t tout itask istate rworks =
     (let s = s\<lparr>nslast := nst s\<rparr>
      in if itask = 1 then
           (if (tn s - tout) * h s \<ge> 0 then
              (case intdy s tout 0 y of
                 (s', y', iflag) \<Rightarrow>
                   if iflag \<noteq> 0 then Returned (ret_terminate s' y' t istate)
                   else Returned (ret_at_tout s' y' tout))
            else Next (s, 0))
         else if itask = 2 then Next (s, 0)
         else if itask = 3 then
           (let tp = tn s - hu s * (1 + 100 * ETA)
            in if (tp - tout) * h s > 0 then Returned (ret_terminate s y t istate)
               else if (tn s - tout) * h s < 0 then Next (s, 0)
               else Returned (ret_success s y itask 0 0))
         else if itask = 4 then
           (let tcrit = rworks ! 0
            in if (tn s - tcrit) * h s > 0 then Returned (ret_terminate s y t istate)
               else if (tcrit - tout) * h s < 0 then Returned (ret_terminate s y t istate)
               else if (tn s - tout) * h s \<ge> 0 then
                 (case intdy s tout 0 y of
                    (s', y', iflag) \<Rightarrow>
                      if iflag \<noteq> 0 then Returned (ret_terminate s' y' t istate)
                      else Returned (ret_at_tout s' y' tout))
               else Next (s, tcrit))
         else if itask = 5 then
           (let tcrit = rworks ! 0
            in if (tn s - tcrit) * h s > 0 then Returned (ret_terminate s y t istate)
               else
                 let hmx = \<bar>tn s\<bar> + \<bar>h s\<bar>;
                     ihit = (if \<bar>tn s - tcrit\<bar> \<le> 100 * ETA * hmx then 1 else 0)
                 in if ihit \<noteq> 0 then Returned (ret_success s y itask ihit tcrit)
                    else
                      let tnext = tn s + h s * (1 + 4 * ETA)
                      in if (tnext - tcrit) * h s \<le> 0 then Next (s, tcrit)
                         else
                           let s = s\<lparr>h := (tcrit - tn s) * (1 - 4 * ETA)\<rparr>
                           in Next (if istate = 2 then s\<lparr>jstart := - 2\<rparr> else s, tcrit))
         else Next (s, 0))"

text \<open>Block f and the error returns after it: what follows the call of \<^verbatim>\<open>stoda\<close> in the loop.\<close>

definition lsoda_after_step ::
  "lsoda_state \<Rightarrow> real list \<Rightarrow> real \<Rightarrow> int \<Rightarrow> real \<Rightarrow> (lsoda_state \<times> real list) flow" where
  "lsoda_after_step s y tout itask tcrit =
     (if kflag s = 0 then
        let s = s\<lparr>init := 1\<rparr>;
            s = (if meth s \<noteq> mused s
                 then s\<lparr>tsw := tn s, maxord := (if meth s = 2 then mxords s else mxordn s),
                        jstart := - 1\<rparr>
                 else s)
        in if itask = 1 then
             (if (tn s - tout) * h s < 0 then Next (s, y)
              else (case intdy s tout 0 y of (s', y', iflag) \<Rightarrow> Returned (ret_at_tout s' y' tout)))
           else if itask = 2 then Returned (ret_success s y itask 0 tcrit)
           else if itask = 3 then
             (if (tn s - tout) * h s \<ge> 0 then Returned (ret_success s y itask 0 tcrit)
              else Next (s, y))
           else if itask = 4 then
             (if (tn s - tout) * h s \<ge> 0 then
                (case intdy s tout 0 y of (s', y', iflag) \<Rightarrow> Returned (ret_at_tout s' y' tout))
              else
                let hmx = \<bar>tn s\<bar> + \<bar>h s\<bar>;
                    ihit = (if \<bar>tn s - tcrit\<bar> \<le> 100 * ETA * hmx then 1 else 0)
                in if ihit \<noteq> 0 then Returned (ret_success s y itask ihit tcrit)
                   else
                     let tnext = tn s + h s * (1 + 4 * ETA)
                     in if (tnext - tcrit) * h s \<le> 0 then Next (s, y)
                        else Next (s\<lparr>h := (tcrit - tn s) * (1 - 4 * ETA), jstart := - 2\<rparr>, y))
           else if itask = 5 then
             (let hmx = \<bar>tn s\<bar> + \<bar>h s\<bar>;
                  ihit = (if \<bar>tn s - tcrit\<bar> \<le> 100 * ETA * hmx then 1 else 0)
              in Returned (ret_success s y itask ihit tcrit))
           else Next (s, y)
      else if kflag s = - 1 \<or> kflag s = - 2 then
        let istate = (if kflag s = - 1 then - 4 else - 5);
            (big, imx) = fold (\<lambda>i (big, imx).
                            let size = \<bar>acor s ! i\<bar> * ewt s ! i
                            in if big < size then (size, i) else (big, imx))
                          [1..<Suc (n s)] (0, 1)
        in Returned (ret_terminate2 (s\<lparr>imxer := imx\<rparr>) y istate)
      else Next (s, y))"

text \<open>One pass of the \<^verbatim>\<open>while(1)\<close> loop of block e.\<close>

definition lsoda_pass ::
  "nat \<Rightarrow> rhs \<Rightarrow> nat \<Rightarrow> real \<Rightarrow> real \<Rightarrow> int \<Rightarrow> int \<Rightarrow> real \<Rightarrow> lsoda_state \<Rightarrow> real list \<Rightarrow>
     (lsoda_state \<times> real list) flow option" where
  "lsoda_pass fuel f neq t tout itask istate tcrit s y =
     (let pre =
            (if istate \<noteq> 1 \<or> nst s \<noteq> 0 then
               (if sz_sub (nst s) (nslast s) \<ge> mxstep s then Returned (ret_terminate2 s y (- 1))
                else
                  let s = ewset s (yh s ! 1);
                      (e, ok) = invert_ewt [1..<Suc (n s)] (ewt s);
                      s = s\<lparr>ewt := e\<rparr>
                  in if \<not> ok then Returned (ret_terminate2 s y (- 6)) else Next s)
             else Next s)
      in case pre of
           Stopped msg \<Rightarrow> Some (Stopped msg)
         | Returned r \<Rightarrow> Some (Returned r)
         | Next s1 \<Rightarrow>
             let tolsf = ETA * vmnorm (n s1) (yh s1 ! 1) (ewt s1)
             in if tolsf > 1 then
                  (if nst s1 = 0 then Some (Returned (ret_terminate s1 y t istate))
                   else Some (Returned (ret_terminate2 s1 y (- 2))))
                else
                  let s2 = (if tn s1 + h s1 = tn s1 then s1\<lparr>nhnil := nhnil s1 + 1\<rparr> else s1)
                  in case stoda fuel f s2 neq y of
                       None \<Rightarrow> None
                     | Some (Inl msg) \<Rightarrow> Some (Stopped msg)
                     | Some (Inr (s3, y3)) \<Rightarrow> Some (lsoda_after_step s3 y3 tout itask tcrit))"

fun lsoda_loop ::
  "nat \<Rightarrow> rhs \<Rightarrow> nat \<Rightarrow> real \<Rightarrow> real \<Rightarrow> int \<Rightarrow> int \<Rightarrow> real \<Rightarrow> lsoda_state \<Rightarrow> real list \<Rightarrow>
     (string + lsoda_result) option" where
  "lsoda_loop 0 f neq t tout itask istate tcrit s y = None"
| "lsoda_loop (Suc fuel) f neq t tout itask istate tcrit s y =
     (case lsoda_pass (Suc fuel) f neq t tout itask istate tcrit s y of
        None \<Rightarrow> None
      | Some (Stopped msg) \<Rightarrow> Some (Inl msg)
      | Some (Returned r) \<Rightarrow> Some (Inr r)
      | Some (Next (s', y')) \<Rightarrow> lsoda_loop fuel f neq t tout itask istate tcrit s' y')"

text \<open>
  \<^verbatim>\<open>lsoda(f, neq, y, t, tout, itask, istate, iopt, jt, iworks, rworks, _data)\<close>. The blocks
  before the loop, from the check of \<open>*istate\<close> on:
\<close>

definition lsoda_setup ::
  "rhs \<Rightarrow> lsoda_state \<Rightarrow> nat \<Rightarrow> real list \<Rightarrow> real \<Rightarrow> real \<Rightarrow> int \<Rightarrow> int \<Rightarrow> int \<Rightarrow> int \<Rightarrow>
     int list \<Rightarrow> real list \<Rightarrow> (lsoda_state \<times> real) flow" where
  "lsoda_setup f s neq y t tout itask istate iopt jt iworks rworks =
     (if istate < 1 \<or> istate > 3 then Returned (ret_terminate s y t istate)
      else if itask < 1 \<or> itask > 5 then Returned (ret_terminate s y t istate)
      else if init s = 0 \<and> (istate = 2 \<or> istate = 3) then Returned (ret_terminate s y t istate)
      else
        case lsoda_block_b s neq y t tout istate iopt jt iworks rworks of
          Stopped msg \<Rightarrow> Stopped msg
        | Returned r \<Rightarrow> Returned r
        | Next (s1, h0) \<Rightarrow>
            let s2 = (if istate = 1 then lsoda_alloc s1 else s1)
            in if (istate = 1 \<or> istate = 3) \<and> tol_illegal s2
               then Returned (ret_terminate s2 y t istate)
               else
                 let s3 = (if istate = 3 then s2\<lparr>jstart := - 1\<rparr> else s2)
                 in case (if istate = 1 then lsoda_block_c f s3 y t tout itask istate h0 rworks
                          else Next (s3, 0)) of
                      Stopped msg \<Rightarrow> Stopped msg
                    | Returned r \<Rightarrow> Returned r
                    | Next (s4, tcrit) \<Rightarrow>
                        if istate = 2 \<or> istate = 3
                        then lsoda_block_d s4 y t tout itask istate rworks
                        else Next (s4, tcrit))"

definition lsoda ::
  "nat \<Rightarrow> rhs \<Rightarrow> lsoda_state \<Rightarrow> nat \<Rightarrow> real list \<Rightarrow> real \<Rightarrow> real \<Rightarrow> int \<Rightarrow> int \<Rightarrow> int \<Rightarrow> int \<Rightarrow>
     int list \<Rightarrow> real list \<Rightarrow> (string + lsoda_result) option" where
  "lsoda fuel f s neq y t tout itask istate iopt jt iworks rworks =
     (if \<not> tout > t then Some (Inl ''tout <= *t'')
      else
        case lsoda_setup f s neq y t tout itask istate iopt jt iworks rworks of
          Stopped msg \<Rightarrow> Some (Inl msg)
        | Returned r \<Rightarrow> Some (Inr r)
        | Next (s', tcrit) \<Rightarrow> lsoda_loop fuel f neq t tout itask istate tcrit s' y)"

text \<open>
  \<^verbatim>\<open>lsoda_function(f, neq, y, yout, t, tout, istate, _data, rtol, atol)\<close>: returns the state,
  \<^verbatim>\<open>yout\<close>, \<^verbatim>\<open>*t\<close> and \<^verbatim>\<open>*istate\<close>, or the exception.
\<close>

definition lsoda_function ::
  "nat \<Rightarrow> rhs \<Rightarrow> lsoda_state \<Rightarrow> nat \<Rightarrow> real list \<Rightarrow> real list \<Rightarrow> real \<Rightarrow> real \<Rightarrow> int \<Rightarrow> real \<Rightarrow> real \<Rightarrow>
     (string + lsoda_state \<times> real list \<times> real \<times> int) option" where
  "lsoda_function fuel f s neq y yout t tout istate rtol_arg atol_arg =
     (let itask = 1;
          iopt = 0;
          jt = 2;
          yout = resize yout (length y + 1) 0;
          yout = yout[0 := 0];
          yout = fold (\<lambda>i yo. yo[i + 1 := y ! i]) [0..<length y] yout;
          s = s\<lparr>rtol := (resize (rtol s) (neq + 1) rtol_arg)[0 := 0],
                atol := (resize (atol s) (neq + 1) atol_arg)[0 := 0]\<rparr>
      in case lsoda fuel f s neq yout t tout itask istate iopt jt (replicate 7 0) (replicate 4 0) of
           None \<Rightarrow> None
         | Some (Inl msg) \<Rightarrow> Some (Inl msg)
         | Some (Inr r) \<Rightarrow> Some (Inr (r_state r, tl (r_y r), r_t r, r_istate r)))"

text \<open>
  The constructor and the default member initialisers, applied to storage that holds \<open>s\<close>:
  the members they do not mention (\<^verbatim>\<open>illin\<close> among them) keep indeterminate values. The
  arrays \<^verbatim>\<open>elco\<close> and \<^verbatim>\<open>tesco\<close> have their fixed sizes.
\<close>

definition LSODA_new :: "lsoda_state \<Rightarrow> lsoda_state" where
  "LSODA_new s =
     s\<lparr>mord := [12, 5, 0],
       sm1 := [0, 0.5, 0.575, 0.55, 0.45, 0.35, 0.25, 0.2, 0.15, 0.1, 0.075, 0.05, 0.025],
       el := replicate 14 0, cm1 := replicate 13 0, cm2 := replicate 6 0,
       elco := map (\<lambda>r. resize r 14 0) (resize (elco s) 13 []),
       tesco := map (\<lambda>r. resize r 4 0) (resize (tesco s) 13 []),
       init := 0, ixpr := 0, mxords := 12, h := 0, tn := 0,
       ewt := [], savf := [], acor := [], yh := [], wm := [], ipvt := [],
       itol := 2, rtol := [], atol := []\<rparr>"

section \<open>Verification\<close>

subsection \<open>Auxiliary definitions\<close>

text \<open>A state with every member zero or empty: the base of the concrete states below.\<close>

definition zero_state :: lsoda_state where
  "zero_state = \<lparr>ml = 0, mu = 0, imxer = 0, sqrteta = 0, mord = [0, 0, 0],
     sm1 = replicate 13 0, el = replicate 14 0, cm1 = replicate 13 0, cm2 = replicate 6 0,
     elco = replicate 13 (replicate 14 0), tesco = replicate 13 (replicate 4 0),
     illin = 0, init = 0, ierpj = 0, iersl = 0, jcur = 0, l = 0, miter = 0, maxord = 0,
     maxcor = 0, msbp = 0, mxncf = 0, kflag = 0, jstart = 0, iret = 0, ixpr = 0, jtyp = 0,
     mused = 0, mxordn = 0, mxords = 0, meth = 0, n = 0, nq = 0, nst = 0, nfe = 0, nje = 0,
     nqu = 0, mxstep = 0, mxhnil = 0, nslast = 0, nhnil = 0, ntrep = 0, nyh = 0, ccmax = 0,
     el0 = 0, h = 0, hmin = 0, hmxi = 0, hu = 0, rc = 0, tn = 0, tsw = 0, pdnorm = 0,
     conit = 0, crate = 0, hold = 0, rmax = 0, ialth = 0, ipup = 0, lmax = 0, nslp = 0,
     pdest = 0, pdlast = 0, ratio = 0, icount = 0, irflag = 0, ewt = [], savf = [], acor = [],
     yh = [], wm = [], ipvt = [], itol = 0, rtol = [], atol = []\<rparr>"

text \<open>One row of the history combined with the next, entries 1 to \<open>k\<close>.\<close>

definition row_comb :: "(real \<Rightarrow> real \<Rightarrow> real) \<Rightarrow> nat \<Rightarrow> real list \<Rightarrow> real list \<Rightarrow> real list" where
  "row_comb f k r r2 = fold (\<lambda>i r. r[i := f (r ! i) (r2 ! i)]) [1..<Suc k] r"

text \<open>The rows a sweep over the orders \<open>m\<close> to \<open>q\<close> updates, in the order it updates them.\<close>

definition pascal_word :: "nat \<Rightarrow> nat \<Rightarrow> nat list" where
  "pascal_word q m = concat (map (\<lambda>j. [j..<Suc q]) (rev [m..<Suc q]))"

text \<open>Two output vectors of one length that agree on the entries 1 to \<open>k\<close> they have.\<close>

definition agree :: "nat \<Rightarrow> real list \<Rightarrow> real list \<Rightarrow> bool" where
  "agree k d1 d2 = (length d1 = length d2 \<and> (\<forall>i. 1 \<le> i \<and> i \<le> k \<and> i < length d1 \<longrightarrow> d1 ! i = d2 ! i))"

text \<open>A state after one step of size 1 from \<open>t = 1\<close> at order 1, with one equation.\<close>

definition one_step_state :: lsoda_state where
  "one_step_state = zero_state\<lparr>nq := 1, l := 2, n := 1, tn := 2, hu := 1, h := 1,
     yh := [[0, 0], [0, 5], [0, 3]]\<rparr>"

text \<open>
  A state after one accepted step of size \<open>x\<close> from \<open>t = 0\<close> at order 1, with one equation
  whose solution is constant: what \<^verbatim>\<open>intdy\<close> reads of it.
\<close>

definition tiny_step_state :: "real \<Rightarrow> lsoda_state" where
  "tiny_step_state x = zero_state\<lparr>nq := 1, l := 2, n := 1, tn := x, hu := x, h := x,
     yh := [[0, 0], [0, 1], [0, 0]]\<rparr>"

text \<open>The right-hand side of \<open>dy/dt = 0\<close> for one equation.\<close>

definition zero_rhs :: rhs where
  "zero_rhs = (\<lambda>t y. [0])"

text \<open>Two states with the same illegal-input counter, order, method family and bounds on the order.\<close>

definition same_ctl :: "lsoda_state \<Rightarrow> lsoda_state \<Rightarrow> bool" where
  "same_ctl s s' = (illin s' = illin s \<and> nq s' = nq s \<and> l s' = l s \<and> meth s' = meth s \<and>
     mused s' = mused s \<and> mxordn s' = mxordn s \<and> mxords s' = mxords s \<and> lmax s' = lmax s \<and>
     maxord s' = maxord s \<and> n s' = n s \<and> init s' = init s \<and> sm1 s' = sm1 s)"

text \<open>Copies of \<open>max\<close>, \<open>min\<close> and the absolute value: a proof that does not depend on what they
  compute folds them into these constants.\<close>

definition hidden_max :: "real \<Rightarrow> real \<Rightarrow> real" where "hidden_max a b = max a b"

definition hidden_min :: "real \<Rightarrow> real \<Rightarrow> real" where "hidden_min a b = min a b"

definition hidden_abs :: "real \<Rightarrow> real" where "hidden_abs a = \<bar>a\<bar>"

text \<open>Two states with the same members among those that no step changes.\<close>

definition same_env :: "lsoda_state \<Rightarrow> lsoda_state \<Rightarrow> bool" where
  "same_env s s' = (illin s' = illin s \<and> mxordn s' = mxordn s \<and> mxords s' = mxords s \<and>
     maxord s' = maxord s \<and> n s' = n s \<and> init s' = init s \<and> sm1 s' = sm1 s)"

text \<open>
  What a call that started with \<open>illin = k\<close> and \<open>*t = t\<close> may return: if it ends in
  \<^verbatim>\<open>terminate\<close>, then \<open>*t\<close> is as it was and, unless \<open>k\<close> is 5, \<open>illin\<close> has been incremented and
  \<open>*istate\<close> is \<open>-3\<close>. A block that goes on has left \<open>illin\<close> alone.
\<close>

definition illegal_ok :: "nat \<Rightarrow> real \<Rightarrow> lsoda_result \<Rightarrow> bool" where
  "illegal_ok k t r =
     (r_exit r = Illegal_input \<longrightarrow>
        r_t r = t \<and> (k \<noteq> 5 \<longrightarrow> illin (r_state r) = sz_inc k \<and> r_istate r = - 3))"

definition flow_ok :: "nat \<Rightarrow> real \<Rightarrow> (lsoda_state \<times> 'a) flow \<Rightarrow> bool" where
  "flow_ok k t fl =
     (case fl of Stopped msg \<Rightarrow> True | Returned r \<Rightarrow> illegal_ok k t r | Next x \<Rightarrow> illin (fst x) = k)"

text \<open>A state in the chord iteration with one equation and a Jacobian that is not current, and
  the variables of \<^verbatim>\<open>correction\<close> after two iterations that have not converged.\<close>

definition chord_state :: lsoda_state where
  "chord_state = zero_state\<lparr>miter := 2, maxcor := 3, mxncf := 10, n := 1, nq := 1, l := 2, h := 1,
     yh := [[0, 0], [0, 1], [0, 0]], savf := [0, 0], acor := [0, 0], ewt := [0, 1]\<rparr>"

definition third_iterate :: corr_vars where
  "third_iterate = \<lparr>cv_y = [0, 1], cv_corflag = 0, cv_del = 1, cv_delp = 1, cv_ncf = 0,
     cv_rh = 1, cv_m = 2, cv_rate = 0, cv_restarts = 0\<rparr>"

text \<open>Two states with the same members among those that steer the corrector iteration.\<close>

definition same_iter :: "lsoda_state \<Rightarrow> lsoda_state \<Rightarrow> bool" where
  "same_iter s s' = (miter s' = miter s \<and> maxcor s' = maxcor s \<and> jcur s' = jcur s \<and> ipup s' = ipup s)"

text \<open>No restart of the corrector can follow: there is no Jacobian, or it is current, or it is
  about to be evaluated.\<close>

definition restart_done :: "lsoda_state \<Rightarrow> corr_vars \<Rightarrow> bool" where
  "restart_done s v = (miter s = 0 \<or> jcur s = 1 \<or> cv_m v = 0 \<and> 0 < ipup s)"

text \<open>A bound on the passes that the loop of \<^verbatim>\<open>correction\<close> can still make.\<close>

definition passes_left :: "lsoda_state \<Rightarrow> corr_vars \<Rightarrow> nat" where
  "passes_left s v = maxcor s - cv_m v + (if restart_done s v then 0 else maxcor s)"

text \<open>The restart has happened at most once, and after it the Jacobian is current or about to
  be evaluated.\<close>

definition restarts_ok :: "lsoda_state \<Rightarrow> corr_vars \<Rightarrow> bool" where
  "restarts_ok s v =
     (cv_restarts v = 0 \<or> cv_restarts v = 1 \<and> (jcur s = 1 \<or> cv_m v = 0 \<and> 0 < ipup s))"

text \<open>What a pass that goes on has done: one more iteration, or the restart.\<close>

definition went_on :: "lsoda_state \<Rightarrow> corr_vars \<Rightarrow> lsoda_state \<Rightarrow> corr_vars \<Rightarrow> bool" where
  "went_on s v s' v' =
     (miter s' = miter s \<and> maxcor s' = maxcor s \<and> jcur s' = jcur s \<and>
      (cv_m v' = cv_m v + 1 \<and> cv_m v + 1 \<noteq> maxcor s \<and> ipup s' = ipup s \<and>
         cv_restarts v' = cv_restarts v \<or>
       cv_m v' = 0 \<and> miter s \<noteq> 0 \<and> jcur s \<noteq> 1 \<and> ipup s' = miter s \<and>
         cv_restarts v' = cv_restarts v + 1))"

subsection \<open>Lists and loops\<close>

declare upt_Suc [simp del]

lemma upt1_Suc: "[Suc 0..<Suc (Suc k)] = [Suc 0..<Suc k] @ [Suc k]"
  by (simp add: upt_Suc)

lemma fold_concat_list: "fold f (concat xss) a = fold (fold f) xss a"
  by (induction xss arbitrary: a) simp_all

lemma length_fold_pointwise: "length (fold (\<lambda>i d. d[i := F i d]) xs d) = length d"
  by (induction xs arbitrary: d) simp_all

lemma length_fold_preserve:
  assumes "\<And>x d. length (H x d) = length d"
  shows "length (fold H xs d) = length d"
  by (induction xs arbitrary: d) (simp_all add: assms)

lemma fold_pointwise_nth:
  "fold (\<lambda>i d. d[i := F i (d ! i)]) [Suc 0..<Suc k] d ! j =
     (if 1 \<le> j \<and> j \<le> k \<and> j < length d then F j (d ! j) else d ! j)"
proof (induction k arbitrary: j)
  case 0
  then show ?case by auto
next
  case (Suc k)
  define e where "e = fold (\<lambda>i d. d[i := F i (d ! i)]) [Suc 0..<Suc k] d"
  have len: "length e = length d"
    by (simp add: e_def length_fold_pointwise)
  have step: "fold (\<lambda>i d. d[i := F i (d ! i)]) [Suc 0..<Suc (Suc k)] d = e[Suc k := F (Suc k) (e ! Suc k)]"
    by (simp add: e_def upt1_Suc)
  have IH: "e ! j = (if 1 \<le> j \<and> j \<le> k \<and> j < length d then F j (d ! j) else d ! j)" for j
    using Suc by (simp add: e_def)
  show ?case
  proof (cases "Suc k < length d")
    case True
    then show ?thesis
      by (auto simp: step IH nth_list_update len)
  next
    case False
    then show ?thesis
      by (auto simp: step IH list_update_beyond len not_less)
  qed
qed

lemma load_y_nth:
  "load_y s y ! j = (if 1 \<le> j \<and> j \<le> n s \<and> j < length y then yh s ! 1 ! j else y ! j)"
  using fold_pointwise_nth [of "\<lambda>i x. yh s ! 1 ! i" "n s" y j] by (simp add: load_y_def)

lemma length_load_y: "length (load_y s y) = length y"
  by (simp add: load_y_def length_fold_pointwise)

subsection \<open>The Pascal-triangle sweep and its inverse\<close>

lemma length_row_comb: "length (row_comb f k r r2) = length r"
  by (induction k) (simp_all add: row_comb_def upt1_Suc)

lemma nth_row_comb:
  "row_comb f k r r2 ! j = (if 1 \<le> j \<and> j \<le> k \<and> j < length r then f (r ! j) (r2 ! j) else r ! j)"
proof (induction k arbitrary: j)
  case 0
  then show ?case by (simp add: row_comb_def)
next
  case (Suc k)
  have step: "row_comb f (Suc k) r r2 =
      (row_comb f k r r2)[Suc k := f (row_comb f k r r2 ! Suc k) (r2 ! Suc k)]"
    by (simp add: row_comb_def upt1_Suc)
  show ?case
  proof (cases "Suc k < length r")
    case True
    then show ?thesis
      by (auto simp: step Suc nth_list_update length_row_comb)
  next
    case False
    then show ?thesis
      by (auto simp: step Suc list_update_beyond length_row_comb not_less)
  qed
qed

lemma row_comb_inverse: "row_comb (-) k (row_comb (+) k r r2) r2 = r"
  by (rule nth_equalityI) (auto simp: length_row_comb nth_row_comb)

lemma yh_row_op_alt: "yh_row_op f k i1 a = a[i1 := row_comb f k (a ! i1) (a ! (i1 + 1))]"
proof (induction k)
  case 0
  then show ?case by (simp add: yh_row_op_def row_comb_def)
next
  case (Suc k)
  have step: "yh_row_op f (Suc k) i1 a =
      (let b = yh_row_op f k i1 a
       in b[i1 := (b ! i1)[Suc k := f (b ! i1 ! Suc k) (b ! (i1 + 1) ! Suc k)]])"
    by (simp add: yh_row_op_def upt1_Suc Let_def)
  have comb: "row_comb f (Suc k) r r2 =
      (row_comb f k r r2)[Suc k := f (row_comb f k r r2 ! Suc k) (r2 ! Suc k)]" for r r2
    by (simp add: row_comb_def upt1_Suc)
  show ?case
  proof (cases "i1 < length a")
    case True
    then show ?thesis by (simp add: step Suc comb Let_def)
  next
    case False
    then show ?thesis by (simp add: step Suc Let_def list_update_beyond not_less)
  qed
qed

lemma yh_row_op_inverse: "yh_row_op (-) k i (yh_row_op (+) k i a) = a"
proof (cases "i < length a")
  case True
  then show ?thesis by (simp add: yh_row_op_alt row_comb_inverse)
next
  case False
  then show ?thesis by (simp add: yh_row_op_alt not_less list_update_beyond)
qed

lemma yh_row_op_commute:
  assumes "i + 2 \<le> j"
  shows "yh_row_op f k i (yh_row_op f k j a) = yh_row_op f k j (yh_row_op f k i a)"
  using assms by (simp add: yh_row_op_alt list_update_swap)

lemma row_op_past_word:
  assumes "\<forall>x\<in>set w. i + 2 \<le> x"
  shows "yh_row_op f k i (fold (yh_row_op f k) w a) = fold (yh_row_op f k) w (yh_row_op f k i a)"
  using assms
proof (induction w arbitrary: a)
  case Nil
  then show ?case by simp
next
  case (Cons x w)
  then have far: "i + 2 \<le> x" and rest: "\<forall>y\<in>set w. i + 2 \<le> y"
    by simp_all
  have "yh_row_op f k i (fold (yh_row_op f k) (x # w) a) =
      fold (yh_row_op f k) w (yh_row_op f k i (yh_row_op f k x a))"
    using Cons.IH [OF rest] by simp
  also have "\<dots> = fold (yh_row_op f k) w (yh_row_op f k x (yh_row_op f k i a))"
    by (simp only: yh_row_op_commute [OF far])
  finally show ?case by simp
qed

lemma word_inverse: "fold (yh_row_op (-) k) (rev w) (fold (yh_row_op (+) k) w a) = a"
proof (induction w arbitrary: a rule: rev_induct)
  case Nil
  then show ?case by simp
next
  case (snoc x w)
  then show ?case by (simp add: yh_row_op_inverse)
qed

lemma pascal_word_empty: "q < m \<Longrightarrow> pascal_word q m = []"
  by (simp add: pascal_word_def)

lemma pascal_word_step: "m \<le> q \<Longrightarrow> pascal_word q m = pascal_word q (Suc m) @ [m..<Suc q]"
proof -
  assume "m \<le> q"
  then have "[m..<Suc q] = m # [Suc m..<Suc q]"
    by (simp add: upt_conv_Cons)
  then show ?thesis by (simp add: pascal_word_def)
qed

lemma set_pascal_word: "x \<in> set (pascal_word q m) \<Longrightarrow> m \<le> x"
  by (auto simp: pascal_word_def)

lemma yh_sweep_word: "yh_sweep f q k a = fold (yh_row_op f k) (pascal_word q 1) a"
  by (simp add: yh_sweep_def pascal_word_def fold_concat_list fold_map comp_def)

lemma pascal_word_rev:
  "fold (yh_row_op f k) (pascal_word q m) a = fold (yh_row_op f k) (rev (pascal_word q m)) a"
proof (induction "Suc q - m" arbitrary: m a rule: less_induct)
  case less
  show ?case
  proof (cases "q < m")
    case True
    then show ?thesis by (simp add: pascal_word_empty)
  next
    case False
    then have mq: "m \<le> q" by simp
    show ?thesis
    proof (cases "m = q")
      case True
      then show ?thesis by (simp add: pascal_word_step pascal_word_empty upt_Suc)
    next
      case False
      with mq have lt: "Suc m \<le> q" by simp
      define A where "A = pascal_word q (Suc (Suc m))"
      define B where "B = [Suc m..<Suc q]"
      define F where "F = fold (yh_row_op f k)"
      have W1: "pascal_word q (Suc m) = A @ B"
        using lt by (simp add: pascal_word_step A_def B_def)
      have W0: "pascal_word q m = (A @ B) @ m # B"
        using mq lt by (simp add: pascal_word_step [of m] W1 B_def upt_conv_Cons)
      have IH1: "F (A @ B) x = F (rev B @ rev A) x" for x
        using less [of "Suc m" x] lt by (simp add: W1 F_def)
      have IH2: "F A x = F (rev A) x" for x
        using less [of "Suc (Suc m)" x] lt by (simp add: A_def F_def)
      have far: "\<forall>x\<in>set A. m + 2 \<le> x"
        using set_pascal_word [of _ q "Suc (Suc m)"] by (auto simp: A_def)
      have comm: "yh_row_op f k m (F A x) = F A (yh_row_op f k m x)" for x
        using row_op_past_word [OF far] by (simp add: F_def)
      have "F ((A @ B) @ m # B) a = F B (yh_row_op f k m (F (A @ B) a))"
        by (simp add: F_def)
      also have "\<dots> = F B (yh_row_op f k m (F (rev A) (F (rev B) a)))"
        by (simp add: IH1) (simp add: F_def)
      also have "\<dots> = F B (yh_row_op f k m (F A (F (rev B) a)))"
        by (simp add: IH2)
      also have "\<dots> = F B (F A (yh_row_op f k m (F (rev B) a)))"
        by (simp add: comm)
      also have "\<dots> = F (A @ B) (yh_row_op f k m (F (rev B) a))"
        by (simp add: F_def)
      also have "\<dots> = F (rev B @ rev A) (yh_row_op f k m (F (rev B) a))"
        by (simp add: IH1)
      also have "\<dots> = F (rev ((A @ B) @ m # B)) a"
        by (simp add: F_def)
      finally show ?thesis by (simp add: W0 F_def)
    qed
  qed
qed

lemma yh_sweep_inverse: "yh_sweep (-) q k (yh_sweep (+) q k a) = a"
  by (simp add: yh_sweep_word pascal_word_rev [of "(-)"] word_inverse)

subsection \<open>Interpolation: auxiliary facts\<close>

lemma agree_set:
  assumes "length d1 = length d2"
  shows "agree k (fold (\<lambda>i d. d[i := g i]) [1..<Suc k] d1) (fold (\<lambda>i d. d[i := g i]) [1..<Suc k] d2)"
proof -
  have "fold (\<lambda>i d. d[i := g i]) [Suc 0..<Suc k] d1 ! i = fold (\<lambda>i d. d[i := g i]) [Suc 0..<Suc k] d2 ! i"
    if "1 \<le> i" "i \<le> k" "i < length d1" for i
    using that assms fold_pointwise_nth [of "\<lambda>i x. g i" k] by simp
  then show ?thesis
    using assms by (simp add: agree_def length_fold_pointwise)
qed

lemma agree_pointwise:
  assumes "agree k d1 d2"
  shows "agree k (fold (\<lambda>i d. d[i := F i (d ! i)]) [1..<Suc k] d1)
                 (fold (\<lambda>i d. d[i := F i (d ! i)]) [1..<Suc k] d2)"
  using assms by (simp add: agree_def length_fold_pointwise fold_pointwise_nth)

lemma agree_sweeps:
  assumes "agree k d1 d2"
  shows "agree k (fold (\<lambda>j d. fold (\<lambda>i d. d[i := G j i (d ! i)]) [1..<Suc k] d) js d1)
                 (fold (\<lambda>j d. fold (\<lambda>i d. d[i := G j i (d ! i)]) [1..<Suc k] d) js d2)"
  using assms
proof (induction js arbitrary: d1 d2)
  case Nil
  then show ?case by simp
next
  case (Cons j js)
  show ?case
    using Cons.IH [OF agree_pointwise [OF Cons.prems, of "G j"]] by simp
qed

lemma length_intdy: "length (fst (snd (intdy s t k dky))) = length dky"
  by (simp add: intdy_def Let_def length_fold_preserve length_fold_pointwise)

lemma ETA_pos: "0 < ETA"
  by (simp add: ETA_def)

subsection \<open>What the corrector and the step leave alone\<close>

lemmas hide_arith = hidden_max_def [symmetric] hidden_min_def [symmetric] hidden_abs_def [symmetric]

lemma same_ctl_refl: "same_ctl s s"
  by (simp add: same_ctl_def)

lemma same_ctl_trans: "same_ctl s s' \<Longrightarrow> same_ctl s' s'' \<Longrightarrow> same_ctl s s''"
  by (simp add: same_ctl_def)

lemma ctl_ewset: "same_ctl s (ewset s y)"
  by (simp add: ewset_def same_ctl_def)

lemma ctl_cfode: "same_ctl s (cfode s m)"
  by (simp add: cfode_def same_ctl_def Let_def split_beta)

lemma ctl_resetcoeff: "same_ctl s (resetcoeff s)"
  by (simp add: resetcoeff_def same_ctl_def Let_def)

lemma ctl_scaleh: "same_ctl s (fst (scaleh s rh pdh))"
  by (simp add: scaleh_def same_ctl_def Let_def split_beta)

lemma ctl_predict: "same_ctl s (predict s)"
  by (simp add: predict_def same_ctl_def)

lemma ctl_retract: "same_ctl s (retract told s)"
  by (simp add: retract_def same_ctl_def)

lemma ctl_endstoda: "same_ctl s (endstoda s)"
  by (simp add: endstoda_def same_ctl_def Let_def)

lemma ctl_solsy: "same_ctl s (fst (solsy s y))"
  by (simp add: solsy_def same_ctl_def Let_def)

lemma ctl_corfailure: "same_ctl s (fst (corfailure s told rh ncf))"
  by (simp add: corfailure_def same_ctl_def retract_def Let_def)

lemma ctl_prja: "same_ctl s (fst (prja f s y))"
  by (simp add: prja_def same_ctl_def Let_def split_beta)

lemma ctl_functional_update: "same_ctl s (fst (functional_update s y))"
  by (simp add: functional_update_def same_ctl_def Let_def split_beta)

lemma ctl_chord_update: "same_ctl s (fst (chord_update s y))"
  using ctl_solsy [unfolded same_ctl_def]
  by (simp add: chord_update_def same_ctl_def Let_def split_beta)

lemma ctl_correction_rate_test: "same_ctl s (fst (snd (correction_rate_test s v)))"
  by (simp add: correction_rate_test_def same_ctl_def Let_def hide_arith)

lemma ctl_correction_next: "same_ctl s (case_sum fst fst (correction_next f told s v))"
  using ctl_corfailure [unfolded same_ctl_def]
  by (simp add: correction_next_def same_ctl_def Let_def split_beta)

lemma ctl_correction_iterate:
  "same_ctl s (case_sum fst fst (correction_iterate f pnorm told s v))"
proof -
  obtain s1 y1 del where u: "(if miter s = 0 then functional_update s (cv_y v) else chord_update s (cv_y v)) = (s1, y1, del)"
    by (metis prod_cases3)
  have s1: "same_ctl s s1"
    using u ctl_functional_update [of s "cv_y v"] ctl_chord_update [of s "cv_y v"]
    by (auto split: if_splits)
  obtain c s2 v2 where r: "correction_rate_test s1 (v\<lparr>cv_y := y1, cv_del := del\<rparr>) = (c, s2, v2)"
    by (metis prod_cases3)
  have s2: "same_ctl s1 s2"
    using ctl_correction_rate_test [of s1 "v\<lparr>cv_y := y1, cv_del := del\<rparr>"] r by simp
  have s3: "same_ctl s2 (case_sum fst fst (correction_next f told s2 v2))"
    by (rule ctl_correction_next)
  show ?thesis
    using s1 s2 s3
    by (auto simp: correction_iterate_def u r Let_def intro: same_ctl_trans)
qed

lemma ctl_correction_pass:
  "same_ctl s (case_sum fst fst (correction_pass f pnorm told s v))"
proof -
  have it: "same_ctl s (case_sum fst fst (correction_iterate f pnorm told a w))" if "same_ctl s a" for a w
    using that ctl_correction_iterate [of a f pnorm told w] by (rule same_ctl_trans)
  obtain s1 y1 where p: "prja f s (cv_y v) = (s1, y1)"
    by (cases "prja f s (cv_y v)") auto
  have s1: "same_ctl s s1"
    using ctl_prja [of s f "cv_y v"] p by simp
  define s2 where "s2 = s1\<lparr>ipup := 0, rc := 1, nslp := nst s1, crate := 0.7\<rparr>"
  have s2: "same_ctl s s2"
    using s1 by (simp add: s2_def same_ctl_def)
  have cf: "same_ctl s (fst (corfailure s2 told rh ncf))" for rh ncf
    using s2 ctl_corfailure [of s2 told rh ncf] by (rule same_ctl_trans)
  have z: "same_ctl s (a\<lparr>acor := x\<rparr>)" if "same_ctl s a" for a x
    using that by (simp add: same_ctl_def)
  show ?thesis
    using it [OF z [OF s2]] it [OF z [OF same_ctl_refl]] it [OF same_ctl_refl] cf
    by (simp add: correction_pass_def p Let_def s2_def [symmetric] split_beta)
qed

lemma ctl_correction_loop:
  "correction_loop fuel f pnorm told s v = Some (s', v') \<Longrightarrow> same_ctl s s'"
proof (induction fuel arbitrary: s v)
  case 0
  then show ?case by simp
next
  case (Suc fuel)
  show ?case
  proof (cases "correction_pass f pnorm told s v")
    case (Inl r)
    then show ?thesis
      using Suc.prems ctl_correction_pass [of s f pnorm told v] by auto
  next
    case (Inr r)
    obtain s1 v1 where r: "r = (s1, v1)" by (cases r) auto
    have "same_ctl s s1"
      using Inr r ctl_correction_pass [of s f pnorm told v] by simp
    moreover have "same_ctl s1 s'"
      using Suc.IH [of s1 v1] Suc.prems Inr r by simp
    ultimately show ?thesis by (rule same_ctl_trans)
  qed
qed

lemma ctl_correction:
  "correction fuel f s y pnorm delp told ncf rh = Some (s', c) \<Longrightarrow> same_ctl s s'"
proof -
  assume a: "correction fuel f s y pnorm delp told ncf rh = Some (s', c)"
  define s0 where "s0 = s\<lparr>savf := call_f f (tn s) (load_y s y) (savf s), nfe := nfe s + 1\<rparr>"
  have "same_ctl s s0" by (simp add: s0_def same_ctl_def)
  moreover have "same_ctl s0 s'"
    using a ctl_correction_loop [of fuel f pnorm told s0 _ s' c]
    by (simp add: correction_def Let_def s0_def)
  ultimately show ?thesis by (rule same_ctl_trans)
qed

lemma same_env_refl: "same_env s s"
  by (simp add: same_env_def)

lemma same_env_trans: "same_env s s' \<Longrightarrow> same_env s' s'' \<Longrightarrow> same_env s s''"
  by (simp add: same_env_def)

lemma env_of_ctl: "same_ctl s s' \<Longrightarrow> same_env s s'"
  by (simp add: same_env_def same_ctl_def)

lemma env_methodswitch: "same_env s (fst (methodswitch s dsm pnorm pdh rh))"
  by (simp add: methodswitch_def methodswitch_adams_def methodswitch_bdf_def same_env_def
      Let_def split_beta hide_arith)

lemma env_orderswitch_factors: "same_ctl s (fst (orderswitch_factors s rhup dsm pdh))"
  by (simp add: orderswitch_factors_def same_ctl_def Let_def hide_arith)

lemma env_orderswitch_choice:
  "same_env s (case orderswitch_choice s pdh rhup rhsm rhdn of Inl r \<Rightarrow> fst r | Inr r \<Rightarrow> s)"
  by (simp add: orderswitch_choice_def same_env_def Let_def hide_arith)

lemma env_orderswitch_apply: "same_env s (fst (orderswitch_apply s pdh rhup newq rh))"
  by (simp add: orderswitch_apply_def same_env_def Let_def hide_arith)

lemma env_orderswitch: "same_env s (fst (orderswitch s rhup dsm pdh rh))"
proof -
  obtain s1 pdh1 rhup1 rhsm rhdn where
    f: "orderswitch_factors s rhup dsm pdh = (s1, pdh1, rhup1, rhsm, rhdn)"
    by (metis prod_cases5)
  have s1: "same_env s s1"
    using env_orderswitch_factors [of s rhup dsm pdh] f by (simp add: env_of_ctl)
  show ?thesis
  proof (cases "orderswitch_choice s1 pdh1 rhup1 rhsm rhdn")
    case (Inl r)
    then show ?thesis
      using s1 env_orderswitch_choice [of s1 pdh1 rhup1 rhsm rhdn]
      by (auto simp: orderswitch_def f intro: same_env_trans)
  next
    case (Inr r)
    obtain newq rh1 where r: "r = (newq, rh1)" by (cases r) auto
    show ?thesis
      using s1 env_orderswitch_apply [of s1 pdh1 rhup1 newq rh1] Inr r
      by (auto simp: orderswitch_def f intro: same_env_trans)
  qed
qed

lemma env_stoda_start: "same_env s (fst (stoda_start s))"
proof -
  have sc: "same_env s (fst (scaleh a rh pdh))" if "same_env s a" for a rh pdh
    using that env_of_ctl [OF ctl_scaleh [of a rh pdh]] by (rule same_env_trans)
  have rc: "same_env s (resetcoeff a)" if "same_env s a" for a
    using that env_of_ctl [OF ctl_resetcoeff [of a]] by (rule same_env_trans)
  have cf: "same_env s (cfode a m)" if "same_env s a" for a m
    using that env_of_ctl [OF ctl_cfode [of a m]] by (rule same_env_trans)
  have up: "same_env s (a\<lparr>cm1 := x\<rparr>)" "same_env s (a\<lparr>cm2 := x\<rparr>)"
    "same_env s (a\<lparr>ialth := k, iret := j\<rparr>)" "same_env s (a\<lparr>h := z\<rparr>)" if "same_env s a" for a x k j z
    using that by (simp_all add: same_env_def)
  define s0 where "s0 = s\<lparr>kflag := 0, ierpj := 0, iersl := 0, jcur := 0\<rparr>"
  have s0: "same_env s s0" by (simp add: s0_def same_env_def)
  define sa where "sa = s0\<lparr>lmax := maxord s0 + 1, nq := 1, l := 2, ialth := 2, rmax := 10000, rc := 0,
                     el0 := 1, crate := 0.7, hold := h s0, nslp := 0, ipup := miter s0, iret := 3,
                     icount := 20, irflag := 0, pdest := 0, pdlast := 0, ratio := 5\<rparr>"
  have sa: "same_env s sa" using s0 by (simp add: sa_def same_env_def)
  define sb where "sb = s0\<lparr>ipup := miter s0, lmax := maxord s0 + 1\<rparr>"
  have sb: "same_env s sb" using s0 by (simp add: sb_def same_env_def)
  define sc' where "sc' = (if ialth sb = 1 then sb\<lparr>ialth := 2\<rparr> else sb)"
  have sc': "same_env s sc'" using sb by (simp add: sc'_def same_env_def)
  show ?thesis
    unfolding stoda_start_def Let_def s0_def [symmetric]
    unfolding sa_def [symmetric] sb_def [symmetric]
    unfolding sc'_def [symmetric]
    using s0 sa sb sc' 
    by (auto intro!: sc rc cf up)
qed

lemma env_stoda_predict_correct_pass:
  assumes "stoda_predict_correct_pass fuel f told s v = Some r"
  shows "same_env s (case r of Inl (Inl x) \<Rightarrow> fst x | Inl (Inr x) \<Rightarrow> fst x | Inr x \<Rightarrow> fst x)"
proof -
  define s1 where "s1 = (if \<bar>rc s - 1\<bar> > ccmax s then s\<lparr>ipup := miter s\<rparr> else s)"
  define s2 where "s2 = (if nst s1 \<ge> nslp s1 + msbp s1 then s1\<lparr>ipup := miter s1\<rparr> else s1)"
  define s3 where "s3 = predict s2"
  define pn where "pn = vmnorm (n s3) (yh s3 ! 1) (ewt s3)"
  define G where "G = (\<lambda>(s' :: lsoda_state) (c :: corr_vars).
             let v = v\<lparr>sv_y := cv_y c, sv_del := cv_del c, sv_delp := cv_delp c,
                       sv_ncf := cv_ncf c, sv_rh := cv_rh c, sv_m := cv_m c\<rparr>
             in if cv_corflag c = 0 then Some (Inl (Inr (s', v, pn)))
                else if cv_corflag c = 1 then
                  (case scaleh s' (max (sv_rh v) (hmin s' / \<bar>h s'\<bar>)) (sv_pdh v) of
                     (s'', rh', pdh') \<Rightarrow> Some (Inr (s'', v\<lparr>sv_rh := rh', sv_pdh := pdh'\<rparr>)))
                else if cv_corflag c = 2 then
                  Some (Inl (Inl (s'\<lparr>kflag := - 2, hold := h s', jstart := 1\<rparr>, sv_y v)))
                else Some (Inr (s', v)))"
  have eq: "stoda_predict_correct_pass fuel f told s v =
         (case correction fuel f s3 (sv_y v) pn (sv_delp v) told (sv_ncf v) (sv_rh v) of
            None \<Rightarrow> None | Some (s', c) \<Rightarrow> G s' c)"
    unfolding stoda_predict_correct_pass_def Let_def s1_def s2_def s3_def pn_def G_def
    by (rule refl)
  have s3: "same_env s s3"
    using env_of_ctl [OF ctl_predict [of s2]]
    by (simp add: s3_def s2_def s1_def same_env_def)
  obtain s' c where c: "correction fuel f s3 (sv_y v) pn (sv_delp v) told (sv_ncf v) (sv_rh v) = Some (s', c)"
    and g: "G s' c = Some r"
    using assms unfolding eq by (auto split: option.splits)
  have s': "same_env s s'"
    using s3 env_of_ctl [OF ctl_correction [OF c]] by (rule same_env_trans)
  have sc: "same_env s (fst (scaleh s' rh pdh))" for rh pdh
    using s' env_of_ctl [OF ctl_scaleh [of s' rh pdh]] by (rule same_env_trans)
  have up: "same_env s (s'\<lparr>kflag := k, hold := x, jstart := j\<rparr>)" for k x j
    using s' by (simp add: same_env_def)
  show ?thesis
    using g s' sc up
    by (auto simp: G_def Let_def hide_arith split_beta split: if_splits)
qed

lemma env_stoda_predict_correct:
  "stoda_predict_correct fuel f told s v = Some r \<Longrightarrow> same_env s (case_sum fst fst r)"
proof (induction fuel arbitrary: s v)
  case 0
  then show ?case by simp
next
  case (Suc fuel)
  obtain p where p: "stoda_predict_correct_pass (Suc fuel) f told s v = Some p"
    using Suc.prems by (auto split: option.splits)
  note e = env_stoda_predict_correct_pass [OF p]
  show ?case
  proof (cases p)
    case (Inl a)
    then show ?thesis using Suc.prems p e by (cases a) auto
  next
    case (Inr b)
    obtain s1 v1 where b: "b = (s1, v1)" by (cases b) auto
    have "same_env s s1" using e Inr b by simp
    moreover have "same_env s1 (case_sum fst fst r)"
      using Suc.IH [of s1 v1] Suc.prems p Inr b by simp
    ultimately show ?thesis by (rule same_env_trans)
  qed
qed

lemma ctl_stoda_raise_factor: "same_ctl s (fst (stoda_raise_factor s))"
  by (simp add: stoda_raise_factor_def same_ctl_def Let_def)

lemma ctl_stoda_finish: "same_ctl s (stoda_finish s)"
  using ctl_endstoda [unfolded same_ctl_def]
  by (simp add: stoda_finish_def same_ctl_def)

lemma env_stoda_select: "same_env s (stoda_select s dsm pdh rh)"
proof -
  obtain s0 rhup where f: "stoda_raise_factor s = (s0, rhup)"
    by (cases "stoda_raise_factor s") auto
  have s0: "same_env s s0"
    using env_of_ctl [OF ctl_stoda_raise_factor [of s]] f by simp
  obtain s' rhup' pdh' rh' orderflag where
    o: "orderswitch s0 rhup dsm pdh rh = (s', rhup', pdh', rh', orderflag)"
    by (metis prod_cases5)
  have s': "same_env s s'"
    using s0 env_orderswitch [of s0 rhup dsm pdh rh] o by (auto intro: same_env_trans)
  have e: "same_env s (endstoda a)" if "same_env s a" for a
    using that env_of_ctl [OF ctl_endstoda [of a]] by (rule same_env_trans)
  have sc: "same_env s (fst (scaleh a x y)\<lparr>rmax := 10\<rparr>)" if "same_env s a" for a x y
    using that env_of_ctl [OF ctl_scaleh [of a x y]] by (simp add: same_env_def)
  have rc: "same_env s (resetcoeff s')"
    using s' env_of_ctl [OF ctl_resetcoeff [of s']] by (rule same_env_trans)
  have fi: "same_env s (stoda_finish s')"
    using s' env_of_ctl [OF ctl_stoda_finish [of s']] by (rule same_env_trans)
  show ?thesis
    using e [OF s'] e [OF sc [OF s']] e [OF sc [OF rc]] fi
    by (simp add: stoda_select_def f o)
qed

lemma env_stoda_commit: "same_env s (stoda_commit s)"
  by (simp add: stoda_commit_def same_env_def Let_def)

lemma env_stoda_accept: "same_env s (fst (stoda_accept s v dsm pnorm))"
proof -
  define s0 where "s0 = stoda_commit s"
  have s0: "same_env s s0" by (simp add: s0_def env_stoda_commit)
  obtain s1 pdh rh where m: "(if icount s0 < 0 then methodswitch s0 dsm pnorm (sv_pdh v) (sv_rh v)
               else (s0, sv_pdh v, sv_rh v)) = (s1, pdh, rh)"
    by (metis prod_cases3)
  have s1: "same_env s s1"
    using s0 env_methodswitch [of s0 dsm pnorm "sv_pdh v" "sv_rh v"] m
    by (auto split: if_splits intro: same_env_trans)
  have e: "same_env s (endstoda a)" if "same_env s a" for a
    using that env_of_ctl [OF ctl_endstoda [of a]] by (rule same_env_trans)
  have sc: "same_env s (fst (scaleh a x y)\<lparr>rmax := 10\<rparr>)" if "same_env s a" for a x y
    using that env_of_ctl [OF ctl_scaleh [of a x y]] by (simp add: same_env_def)
  have up: "same_env s (s1\<lparr>ialth := k\<rparr>)" for k
    using s1 by (simp add: same_env_def)
  have se: "same_env s (stoda_select a dsm pdh rh)" if "same_env s a" for a
    using that env_stoda_select [of a dsm pdh rh] by (rule same_env_trans)
  have fi: "same_env s (stoda_finish a)" if "same_env s a" for a
    using that env_of_ctl [OF ctl_stoda_finish [of a]] by (rule same_env_trans)
  show ?thesis
    using e [OF sc [OF s1]] se [OF up] fi [OF up]
    by (simp add: stoda_accept_def Let_def s0_def [symmetric] m)
qed

lemma env_stoda_reject:
  "same_env s (case_sum fst fst (stoda_reject f told s v dsm))"
proof -
  define s0 where "s0 = (retract told (s\<lparr>kflag := kflag s - 1\<rparr>))\<lparr>rmax := 2\<rparr>"
  have s0: "same_env s s0"
    using env_of_ctl [OF ctl_retract [of "s\<lparr>kflag := kflag s - 1\<rparr>" told]]
    by (simp add: s0_def same_env_def)
  obtain s' rhup' pdh' rh' orderflag where
    o: "orderswitch s0 0 dsm (sv_pdh v) (sv_rh v) = (s', rhup', pdh', rh', orderflag)"
    by (metis prod_cases5)
  have s': "same_env s s'"
    using s0 env_orderswitch [of s0 0 dsm "sv_pdh v" "sv_rh v"] o by (auto intro: same_env_trans)
  have sc: "same_env s (fst (scaleh a x y))" if "same_env s a" for a x y
    using that env_of_ctl [OF ctl_scaleh [of a x y]] by (rule same_env_trans)
  have rc: "same_env s (resetcoeff a)" if "same_env s a" for a
    using that env_of_ctl [OF ctl_resetcoeff [of a]] by (rule same_env_trans)
  have up: "same_env s (s0\<lparr>kflag := k, hold := x, jstart := j\<rparr>)" for k x j
    using s0 by (simp add: same_env_def)
  define s3 where "s3 = s0\<lparr>h := h s0 * hidden_max (hmin s0 / hidden_abs (h s0)) 0.1\<rparr>"
  define s4 where "s4 = s3\<lparr>savf := call_f f (tn s3) (load_y s3 (sv_y v)) (savf s3), nfe := nfe s3 + 1\<rparr>"
  define s5 where "s5 = s4\<lparr>yh := fold (\<lambda>i a. set2 a 2 i (h s4 * savf s4 ! i)) [1..<Suc (n s4)] (yh s4)\<rparr>"
  define s6 where "s6 = s5\<lparr>ipup := miter s5, ialth := 5\<rparr>"
  have s6: "same_env s s6" "same_env s (s6\<lparr>nq := 1, l := 2\<rparr>)"
    using s0 by (simp_all add: s6_def s5_def s4_def s3_def same_env_def)
  show ?thesis
    unfolding stoda_reject_def Let_def hide_arith
    unfolding s0_def [symmetric] 
    unfolding s3_def [symmetric]
    unfolding s4_def [symmetric]
    unfolding s5_def [symmetric]
    unfolding s6_def [symmetric]
    using up s' sc [OF s'] sc [OF rc [OF s']] s6 rc [OF s6(2)]
    by (simp add: o split_beta)
qed

lemma env_stoda_error_test:
  "same_env s (case_sum fst fst (stoda_error_test f told s v pnorm))"
proof -
  define s0 where "s0 = s\<lparr>jcur := 0\<rparr>"
  have s0: "same_env s s0" by (simp add: s0_def same_env_def)
  have a: "same_env s (fst (stoda_accept s0 v dsm pnorm))" for dsm
    using s0 env_stoda_accept [of s0 v dsm pnorm] by (rule same_env_trans)
  have r: "same_env s (case_sum fst fst (stoda_reject f told s0 v dsm))" for dsm
    using s0 env_stoda_reject [of s0 f told v dsm] by (rule same_env_trans)
  show ?thesis
    using a r by (simp add: stoda_error_test_def Let_def s0_def [symmetric])
qed

lemma env_stoda_pass:
  assumes "stoda_pass fuel f told s v = Some r"
  shows "same_env s (case_sum fst fst r)"
proof (cases "stoda_predict_correct fuel f told s v")
  case None
  then show ?thesis using assms by (simp add: stoda_pass_def)
next
  case (Some p)
  note e = env_stoda_predict_correct [OF Some]
  show ?thesis
  proof (cases p)
    case (Inl a)
    then show ?thesis using assms Some e by (auto simp: stoda_pass_def)
  next
    case (Inr b)
    obtain s' v' pnorm where b: "b = (s', v', pnorm)" by (cases b) auto
    have "same_env s s'" using e Inr b by simp
    moreover have "same_env s' (case_sum fst fst (stoda_error_test f told s' v' pnorm))"
      by (rule env_stoda_error_test)
    ultimately show ?thesis
      using assms Some Inr b by (auto simp: stoda_pass_def intro: same_env_trans)
  qed
qed

lemma env_stoda_loop:
  "stoda_loop fuel f told s v = Some (s', y') \<Longrightarrow> same_env s s'"
proof (induction fuel arbitrary: s v)
  case 0
  then show ?case by simp
next
  case (Suc fuel)
  obtain p where p: "stoda_pass (Suc fuel) f told s v = Some p"
    using Suc.prems by (auto split: option.splits)
  note e = env_stoda_pass [OF p]
  show ?case
  proof (cases p)
    case (Inl a)
    then show ?thesis using Suc.prems p e by auto
  next
    case (Inr b)
    obtain s1 v1 where b: "b = (s1, v1)" by (cases b) auto
    have "same_env s s1" using e Inr b by simp
    moreover have "same_env s1 s'"
      using Suc.IH [of s1 v1] Suc.prems p Inr b by simp
    ultimately show ?thesis by (rule same_env_trans)
  qed
qed

lemma env_stoda:
  assumes "stoda fuel f s neq y = Some (Inr (s', y'))"
  shows "same_env s s'"
proof -
  obtain s0 rh pdh where st: "stoda_start s = (s0, rh, pdh)"
    by (metis prod_cases3)
  have s0: "same_env s s0" using env_stoda_start [of s] st by simp
  have "stoda_loop fuel f (tn s) s0
          \<lparr>sv_y = y, sv_del = 0, sv_delp = 0, sv_rh = rh, sv_pdh = pdh, sv_ncf = 0, sv_m = 0\<rparr> = Some (s', y')"
    using assms by (auto simp: stoda_def st Let_def split: if_splits)
  from env_stoda_loop [OF this] s0 show ?thesis by (auto intro: same_env_trans)
qed

subsection \<open>Illegal input: auxiliary facts\<close>

lemma ok_terminate: "illin s = k \<Longrightarrow> illegal_ok k t (ret_terminate s y t istate)"
  by (simp add: illegal_ok_def ret_terminate_def terminate_def)

lemma ok_terminate2: "illegal_ok k t (ret_terminate2 s y istate)"
  by (simp add: illegal_ok_def ret_terminate2_def terminate2_def)

lemma ok_success: "illegal_ok k t (ret_success s y itask ihit tcrit)"
  by (simp add: illegal_ok_def ret_success_def successreturn_def Let_def)

lemma ok_at_tout: "illegal_ok k t (ret_at_tout s y tout)"
  by (simp add: illegal_ok_def ret_at_tout_def)

lemma intdy_state: "fst (intdy s t k dky) = s"
  by (simp add: intdy_def Let_def)

lemma flow_ok_if:
  "flow_ok k t a \<Longrightarrow> flow_ok k t b \<Longrightarrow> flow_ok k t (if c then a else b)"
  by simp

lemma flow_ok_let_state:
  fixes e :: lsoda_state
  shows "illin e = k \<Longrightarrow> (\<And>x. illin x = k \<Longrightarrow> flow_ok k t (f x)) \<Longrightarrow> flow_ok k t (Let e f)"
  by simp

lemma flow_ok_let_real:
  fixes e :: real
  shows "(\<And>x. flow_ok k t (f x)) \<Longrightarrow> flow_ok k t (Let e f)"
  by simp

lemma flow_ok_terminate:
  "illin s = k \<Longrightarrow> flow_ok k t (Returned (ret_terminate s y t istate))"
  by (simp add: flow_ok_def ok_terminate)

lemma flow_ok_next: "illin s = k \<Longrightarrow> flow_ok k t (Next (s, x))"
  by (simp add: flow_ok_def)

lemma flow_ok_block_b:
  "flow_ok (illin s) t (lsoda_block_b s neq y t tout istate iopt jt iworks rworks)"
  unfolding lsoda_block_b_def
  by (intro flow_ok_if flow_ok_let_state flow_ok_let_real flow_ok_terminate flow_ok_next)
    (simp_all add: Let_def)

lemma illin_alloc: "illin (lsoda_alloc s) = illin s"
  by (simp add: lsoda_alloc_def Let_def)

lemma illin_ewset: "illin (ewset s y) = illin s"
  by (simp add: ewset_def)

lemma flow_ok_block_c:
  "flow_ok (illin s) t (lsoda_block_c f s y t tout itask istate h0 rworks)"
  by (simp add: lsoda_block_c_def flow_ok_def Let_def ok_terminate ok_terminate2 illin_ewset
      split_beta hide_arith)

lemma flow_ok_block_d:
  "flow_ok (illin s) t (lsoda_block_d s y t tout itask istate rworks)"
proof -
  have i: "illegal_ok (illin s) t (ret_terminate (fst (intdy (s\<lparr>nslast := nst s\<rparr>) a b c)) y' t istate)" for a b c y'
    by (simp add: intdy_state ok_terminate)
  show ?thesis
    using i
    by (simp add: lsoda_block_d_def flow_ok_def Let_def ok_terminate ok_success ok_at_tout
      split_beta hide_arith)
qed

lemma flow_ok_case:
  "flow_ok k t c \<Longrightarrow> (\<And>s' x. illin s' = k \<Longrightarrow> flow_ok k t (g s' x)) \<Longrightarrow>
   flow_ok k t (case c of Stopped msg \<Rightarrow> Stopped msg | Returned r \<Rightarrow> Returned r
                | Next (s', x) \<Rightarrow> g s' x)"
  by (cases c) (auto simp: flow_ok_def)

lemma flow_ok_block_b':
  "illin s = k \<Longrightarrow> flow_ok k t (lsoda_block_b s neq y t tout istate iopt jt iworks rworks)"
  using flow_ok_block_b [of s] by simp

lemma flow_ok_block_c':
  "illin s = k \<Longrightarrow> flow_ok k t (lsoda_block_c f s y t tout itask istate h0 rworks)"
  using flow_ok_block_c [of s] by simp

lemma flow_ok_block_d':
  "illin s = k \<Longrightarrow> flow_ok k t (lsoda_block_d s y t tout itask istate rworks)"
  using flow_ok_block_d [of s] by simp

lemma flow_ok_setup:
  "flow_ok (illin s) t (lsoda_setup f s neq y t tout itask istate iopt jt iworks rworks)"
  unfolding lsoda_setup_def
  by (intro flow_ok_if flow_ok_case flow_ok_let_state flow_ok_terminate flow_ok_next
      flow_ok_block_b' flow_ok_block_c' flow_ok_block_d')
    (simp_all add: illin_alloc)

lemma flow_ok_after_step:
  "flow_ok (illin s) t (lsoda_after_step s y tout itask tcrit)"
  by (simp add: lsoda_after_step_def flow_ok_def Let_def ok_terminate2 ok_success ok_at_tout
      split_beta hide_arith)

lemma flow_ok_pass:
  assumes "lsoda_pass fuel f neq t tout itask istate tcrit s y = Some fl"
  shows "flow_ok (illin s) t fl"
proof -
  define pre where "pre =
            (if istate \<noteq> 1 \<or> nst s \<noteq> 0 then
               (if sz_sub (nst s) (nslast s) \<ge> mxstep s then Returned (ret_terminate2 s y (- 1))
                else
                  let s = ewset s (yh s ! 1);
                      (e, ok) = invert_ewt [1..<Suc (n s)] (ewt s);
                      s = s\<lparr>ewt := e\<rparr>
                  in if \<not> ok then Returned (ret_terminate2 s y (- 6)) else Next s)
             else Next s)"
  define rest where "rest = (\<lambda>s1 :: lsoda_state.
             let tolsf = ETA * vmnorm (n s1) (yh s1 ! 1) (ewt s1)
             in if tolsf > 1 then
                  (if nst s1 = 0 then Some (Returned (ret_terminate s1 y t istate))
                   else Some (Returned (ret_terminate2 s1 y (- 2))))
                else
                  let s2 = (if tn s1 + h s1 = tn s1 then s1\<lparr>nhnil := nhnil s1 + 1\<rparr> else s1)
                  in case stoda fuel f s2 neq y of
                       None \<Rightarrow> None
                     | Some (Inl msg) \<Rightarrow> Some (Stopped msg)
                     | Some (Inr (s3, y3)) \<Rightarrow> Some (lsoda_after_step s3 y3 tout itask tcrit))"
  have eq: "lsoda_pass fuel f neq t tout itask istate tcrit s y =
      (case pre of Stopped msg \<Rightarrow> Some (Stopped msg) | Returned r \<Rightarrow> Some (Returned r)
       | Next s1 \<Rightarrow> rest s1)"
    unfolding lsoda_pass_def pre_def rest_def Let_def by (rule refl)
  have pre: "case pre of Stopped msg \<Rightarrow> True | Returned r \<Rightarrow> illegal_ok (illin s) t r
       | Next s1 \<Rightarrow> illin s1 = illin s"
    by (simp add: pre_def Let_def split_beta ok_terminate2 illin_ewset)
  have rest: "flow_ok (illin s) t fl" if s1: "illin s1 = illin s" and r: "rest s1 = Some fl" for s1
  proof -
    define s2 where "s2 = (if tn s1 + h s1 = tn s1 then s1\<lparr>nhnil := nhnil s1 + 1\<rparr> else s1)"
    have s2: "illin s2 = illin s" using s1 by (simp add: s2_def)
    show ?thesis
    proof (cases "ETA * vmnorm (n s1) (yh s1 ! 1) (ewt s1) > 1")
      case True
      then show ?thesis
        using r s1 by (auto simp: rest_def Let_def flow_ok_def ok_terminate ok_terminate2 split: if_splits)
    next
      case False
      then have r2: "(case stoda fuel f s2 neq y of
                       None \<Rightarrow> None
                     | Some (Inl msg) \<Rightarrow> Some (Stopped msg)
                     | Some (Inr (s3, y3)) \<Rightarrow> Some (lsoda_after_step s3 y3 tout itask tcrit)) = Some fl"
        using r by (simp add: rest_def Let_def s2_def)
      show ?thesis
      proof (cases "stoda fuel f s2 neq y")
        case None
        then show ?thesis using r2 by simp
      next
        case (Some a)
        show ?thesis
        proof (cases a)
          case (Inl msg)
          then show ?thesis using r2 Some by (auto simp: flow_ok_def)
        next
          case (Inr b)
          obtain s3 y3 where b: "b = (s3, y3)" by (cases b) auto
          have "same_env s2 s3" using env_stoda [of fuel f s2 neq y s3 y3] Some Inr b by simp
          then have "illin s3 = illin s" using s2 by (simp add: same_env_def)
          then show ?thesis
            using r2 Some Inr b flow_ok_after_step [of s3 t y3 tout itask tcrit] by auto
        qed
      qed
    qed
  qed
  show ?thesis
  proof (cases pre)
    case (Stopped msg)
    then show ?thesis using assms eq by (auto simp: flow_ok_def)
  next
    case (Returned r)
    then show ?thesis using assms eq pre by (auto simp: flow_ok_def)
  next
    case (Next s1)
    then show ?thesis using assms eq pre rest [of s1] by auto
  qed
qed

lemma illegal_ok_loop:
  "lsoda_loop fuel f neq t tout itask istate tcrit s y = Some (Inr r) \<Longrightarrow> illegal_ok (illin s) t r"
proof (induction fuel arbitrary: s y)
  case 0
  then show ?case by simp
next
  case (Suc fuel)
  obtain fl where fl: "lsoda_pass (Suc fuel) f neq t tout itask istate tcrit s y = Some fl"
    using Suc.prems by (auto split: option.splits)
  note ok = flow_ok_pass [OF fl]
  show ?case
  proof (cases fl)
    case (Stopped msg)
    then show ?thesis using Suc.prems fl by simp
  next
    case (Returned r')
    then show ?thesis using Suc.prems fl ok by (simp add: flow_ok_def)
  next
    case (Next x)
    obtain s' y' where x: "x = (s', y')" by (cases x) auto
    have "illin s' = illin s" using ok Next x by (simp add: flow_ok_def)
    then show ?thesis using Suc.IH [of s' y'] Suc.prems fl Next x by simp
  qed
qed

lemma illegal_ok_lsoda:
  assumes "lsoda fuel f s neq y t tout itask istate iopt jt iworks rworks = Some (Inr r)"
  shows "illegal_ok (illin s) t r"
proof -
  note ok = flow_ok_setup [of s t f neq y tout itask istate iopt jt iworks rworks]
  show ?thesis
  proof (cases "lsoda_setup f s neq y t tout itask istate iopt jt iworks rworks")
    case (Stopped msg)
    then show ?thesis using assms by (simp add: lsoda_def split: if_splits)
  next
    case (Returned r')
    then show ?thesis using assms ok by (simp add: lsoda_def flow_ok_def split: if_splits)
  next
    case (Next x)
    obtain s' tcrit where x: "x = (s', tcrit)" by (cases x) auto
    have "illin s' = illin s" using ok Next x by (simp add: flow_ok_def)
    then show ?thesis
      using assms Next x illegal_ok_loop [of fuel f neq t tout itask istate tcrit s' y r]
      by (simp add: lsoda_def split: if_splits)
  qed
qed

lemma sz_inc_small: "k < 5 \<Longrightarrow> sz_inc k = k + 1"
  by (simp add: sz_inc_def)

lemma block_b_rejects_neq:
  assumes "istate = 1 \<or> istate = 3" and "neq = 0 \<or> istate = 3 \<and> n s < neq"
  shows "lsoda_block_b s neq y t tout istate iopt jt iworks rworks =
           Returned (ret_terminate (s\<lparr>ntrep := 0\<rparr>) y t istate)"
proof (cases "neq = 0")
  case True
  then show ?thesis
    using assms(1) by (elim disjE; simp add: lsoda_block_b_def Let_def split del: if_split)
next
  case False
  then show ?thesis
    using assms by (elim disjE; simp add: lsoda_block_b_def Let_def split del: if_split)
qed

lemma block_b_rejects_flags:
  assumes "istate = 1 \<or> istate = 3" and "0 < neq" and "\<not> (istate = 3 \<and> n s < neq)"
    and "itol s < 1 \<or> 4 < itol s \<or> iopt < 0 \<or> 1 < iopt \<or> jt = 3 \<or> jt < 1 \<or> 5 < jt"
  shows "lsoda_block_b s neq y t tout istate iopt jt iworks rworks =
           Returned (ret_terminate (s\<lparr>ntrep := 0, n := neq\<rparr>) y t istate)"
proof (cases "itol s < 1 \<or> 4 < itol s")
  case True
  then show ?thesis
    using assms(1-3) by (elim disjE; simp add: lsoda_block_b_def Let_def split del: if_split)
next
  case itol: False
  show ?thesis
  proof (cases "iopt < 0 \<or> 1 < iopt")
    case True
    then show ?thesis
      using assms(1-3) itol by (elim disjE; simp add: lsoda_block_b_def Let_def split del: if_split)
  next
    case False
    then have "jt = 3 \<or> jt < 1 \<or> 5 < jt" using assms(4) itol by blast
    then show ?thesis
      using assms(1-3) itol False by (elim disjE; simp add: lsoda_block_b_def Let_def split del: if_split)
  qed
qed

lemma setup_passes_block_a:
  assumes "1 \<le> itask" and "itask \<le> 5" and "istate = 1 \<or> istate = 3 \<and> init s \<noteq> 0"
    and "lsoda_block_b s neq y t tout istate iopt jt iworks rworks = Returned r"
  shows "lsoda_setup f s neq y t tout itask istate iopt jt iworks rworks = Returned r"
  using assms by (auto simp: lsoda_setup_def split del: if_split)

subsection \<open>The corrector iteration: auxiliary facts\<close>

lemma iter_functional_update: "same_iter s (fst (functional_update s y))"
  by (simp add: functional_update_def same_iter_def Let_def split_beta)

lemma iter_chord_update: "same_iter s (fst (chord_update s y))"
  by (simp add: chord_update_def solsy_def same_iter_def Let_def split_beta)

lemma iter_correction_rate_test:
  "same_iter s (fst (snd (correction_rate_test s v))) \<and>
   cv_m (snd (snd (correction_rate_test s v))) = cv_m v \<and>
   cv_restarts (snd (snd (correction_rate_test s v))) = cv_restarts v"
  by (simp add: correction_rate_test_def same_iter_def Let_def hide_arith)

lemma prja_iter:
  "miter (fst (prja f s y)) = miter s \<and> maxcor (fst (prja f s y)) = maxcor s \<and>
   jcur (fst (prja f s y)) = 1"
  by (simp add: prja_def Let_def split_beta)

lemma corfailure_corflag:
  "snd (snd (snd (corfailure s told rh ncf))) = 1 \<or> snd (snd (snd (corfailure s told rh ncf))) = 2"
  by (simp add: corfailure_def Let_def hide_arith)

lemma correction_next_continues:
  assumes "\<not> (cv_m v + 1 = maxcor s \<or> 2 \<le> cv_m v + 1 \<and> 2 * cv_delp v < cv_del v)"
  shows "correction_next f told s v =
           Inr (s\<lparr>savf := call_f f (tn s) (cv_y v) (savf s), nfe := nfe s + 1\<rparr>,
                v\<lparr>cv_m := cv_m v + 1, cv_delp := cv_del v\<rparr>)"
  using assms by (auto simp: correction_next_def Let_def)

lemma correction_next_restarts:
  assumes "cv_m v + 1 = maxcor s \<or> 2 \<le> cv_m v + 1 \<and> 2 * cv_delp v < cv_del v"
    and "miter s \<noteq> 0" and "jcur s \<noteq> 1"
  shows "correction_next f told s v =
           Inr (s\<lparr>ipup := miter s, savf := call_f f (tn s) (load_y s (cv_y v)) (savf s),
                   nfe := nfe s + 1\<rparr>,
                v\<lparr>cv_m := 0, cv_rate := 0, cv_del := 0, cv_y := load_y s (cv_y v),
                   cv_restarts := cv_restarts v + 1\<rparr>)"
  using assms by (auto simp: correction_next_def Let_def load_y_def)

lemma correction_next_fails:
  assumes "cv_m v + 1 = maxcor s \<or> 2 \<le> cv_m v + 1 \<and> 2 * cv_delp v < cv_del v"
    and "miter s = 0 \<or> jcur s = 1"
  shows "correction_next f told s v =
           (case corfailure s told (cv_rh v) (cv_ncf v) of
              (s', rh', ncf', corflag') \<Rightarrow>
                Inl (s', v\<lparr>cv_m := cv_m v + 1, cv_rh := rh', cv_ncf := ncf', cv_corflag := corflag'\<rparr>))"
  using assms by (auto simp: correction_next_def Let_def)

lemma correction_next_went_on:
  assumes "correction_next f told s v = Inr (s', v')"
  shows "went_on s v s' v'"
proof (cases "cv_m v + 1 = maxcor s \<or> 2 \<le> cv_m v + 1 \<and> 2 * cv_delp v < cv_del v")
  case False
  then show ?thesis
    using assms correction_next_continues [of v s f told] by (auto simp: went_on_def)
next
  case True
  show ?thesis
  proof (cases "miter s = 0 \<or> jcur s = 1")
    case fails: True
    then show ?thesis
      using assms correction_next_fails [OF True fails, of f told]
      by (simp add: split_beta)
  next
    case False
    then show ?thesis
      using assms correction_next_restarts [OF True, of f told] by (auto simp: went_on_def)
  qed
qed

lemma correction_next_left:
  assumes "correction_next f told s v = Inl (s', v')"
  shows "cv_restarts v' = cv_restarts v"
proof (cases "cv_m v + 1 = maxcor s \<or> 2 \<le> cv_m v + 1 \<and> 2 * cv_delp v < cv_del v")
  case False
  then show ?thesis
    using assms correction_next_continues [of v s f told] by simp
next
  case True
  show ?thesis
  proof (cases "miter s = 0 \<or> jcur s = 1")
    case fails: True
    then show ?thesis
      using assms correction_next_fails [OF True fails, of f told]
      by (auto simp: split_beta)
  next
    case False
    then show ?thesis
      using assms correction_next_restarts [OF True, of f told] by auto
  qed
qed

lemma correction_iterate_cases:
  obtains s2 v2 where "same_iter s s2" and "cv_m v2 = cv_m v" and "cv_restarts v2 = cv_restarts v"
    and "correction_iterate f pnorm told s v = Inl (s2, v2) \<or>
         correction_iterate f pnorm told s v = correction_next f told s2 v2"
proof -
  obtain s1 y1 del where u: "(if miter s = 0 then functional_update s (cv_y v) else chord_update s (cv_y v)) = (s1, y1, del)"
    by (metis prod_cases3)
  have s1: "same_iter s s1"
    using u iter_functional_update [of s "cv_y v"] iter_chord_update [of s "cv_y v"]
    by (auto split: if_splits)
  let ?v1 = "v\<lparr>cv_y := y1, cv_del := del\<rparr>"
  obtain c s2 v2 where r: "correction_rate_test s1 ?v1 = (c, s2, v2)"
    by (metis prod_cases3)
  have s2: "same_iter s s2" "cv_m v2 = cv_m v" "cv_restarts v2 = cv_restarts v"
    using iter_correction_rate_test [of s1 ?v1] r s1 by (simp_all add: same_iter_def)
  have eq: "correction_iterate f pnorm told s v =
      (if del \<le> 100 * pnorm * ETA then Inl (s1, ?v1)
       else if c then Inl (s2, v2) else correction_next f told s2 v2)"
    by (simp add: correction_iterate_def u r Let_def)
  show ?thesis
  proof (cases "del \<le> 100 * pnorm * ETA")
    case True
    then show ?thesis using that [of s1 ?v1] s1 eq by simp
  next
    case False
    then show ?thesis using that [of s2 v2] s2 eq by auto
  qed
qed

lemma correction_iterate_went_on:
  assumes "correction_iterate f pnorm told s v = Inr (s', v')"
  shows "went_on s v s' v'"
proof -
  obtain s2 v2 where a: "same_iter s s2" "cv_m v2 = cv_m v" "cv_restarts v2 = cv_restarts v"
    and b: "correction_iterate f pnorm told s v = Inl (s2, v2) \<or>
         correction_iterate f pnorm told s v = correction_next f told s2 v2"
    by (rule correction_iterate_cases)
  from b assms have "correction_next f told s2 v2 = Inr (s', v')" by auto
  from correction_next_went_on [OF this] a show ?thesis
    by (simp add: went_on_def same_iter_def)
qed

lemma correction_iterate_left:
  assumes "correction_iterate f pnorm told s v = Inl (s', v')"
  shows "cv_restarts v' = cv_restarts v"
proof -
  obtain s2 v2 where a: "same_iter s s2" "cv_m v2 = cv_m v" "cv_restarts v2 = cv_restarts v"
    and b: "correction_iterate f pnorm told s v = Inl (s2, v2) \<or>
         correction_iterate f pnorm told s v = correction_next f told s2 v2"
    by (rule correction_iterate_cases)
  from b show ?thesis
  proof
    assume "correction_iterate f pnorm told s v = Inl (s2, v2)"
    then show ?thesis using assms a by simp
  next
    assume "correction_iterate f pnorm told s v = correction_next f told s2 v2"
    then have "correction_next f told s2 v2 = Inl (s', v')" using assms by simp
    from correction_next_left [OF this] a show ?thesis by simp
  qed
qed

text \<open>A pass either iterates on a state that differs in \<open>acor\<close> only, or after \<^verbatim>\<open>prja\<close>.\<close>

lemma correction_pass_cases:
  obtains (plain) a w where "correction_pass f pnorm told s v = correction_iterate f pnorm told a w"
      and "same_iter s a" and "cv_m w = cv_m v" and "cv_restarts w = cv_restarts v"
      and "cv_m v \<noteq> 0 \<or> ipup s = 0"
  | (fresh) a w where "correction_pass f pnorm told s v = correction_iterate f pnorm told a w"
      and "miter a = miter s" and "maxcor a = maxcor s" and "jcur a = 1"
      and "cv_m w = cv_m v" and "cv_restarts w = cv_restarts v"
      and "cv_m v = 0" and "0 < ipup s"
  | (failed) s' v' where "correction_pass f pnorm told s v = Inl (s', v')"
      and "cv_restarts v' = cv_restarts v"
proof (cases "cv_m v = 0")
  case False
  then show ?thesis
    using plain [of s v] by (simp add: correction_pass_def same_iter_def)
next
  case m: True
  show ?thesis
  proof (cases "0 < ipup s")
    case False
    then show ?thesis
      using m plain [of "s\<lparr>acor := fold (\<lambda>i ac. ac[i := 0]) [1..<Suc (n s)] (acor s)\<rparr>" v]
      by (simp add: correction_pass_def same_iter_def)
  next
    case True
    obtain s1 y1 where p: "prja f s (cv_y v) = (s1, y1)"
      by (cases "prja f s (cv_y v)") auto
    have s1: "miter s1 = miter s" "maxcor s1 = maxcor s" "jcur s1 = 1"
      using prja_iter [of f s "cv_y v"] p by simp_all
    define s2 where "s2 = s1\<lparr>ipup := 0, rc := 1, nslp := nst s1, crate := 0.7\<rparr>"
    define a where "a = s2\<lparr>acor := fold (\<lambda>i ac. ac[i := 0]) [1..<Suc (n s2)] (acor s2)\<rparr>"
    have eq: "correction_pass f pnorm told s v =
        (if ierpj s2 \<noteq> 0 then
                (case corfailure s2 told (cv_rh v) (cv_ncf v) of
                   (s', rh', ncf', corflag') \<Rightarrow>
                     Inl (s', v\<lparr>cv_y := y1, cv_rh := rh', cv_ncf := ncf', cv_corflag := corflag'\<rparr>))
         else correction_iterate f pnorm told a (v\<lparr>cv_y := y1\<rparr>))"
      using m True by (simp add: correction_pass_def p Let_def s2_def a_def)
    show ?thesis
    proof (cases "ierpj s2 \<noteq> 0")
      case True
      then show ?thesis
        using eq failed by (auto simp: split_beta)
    next
      case False
      have "correction_pass f pnorm told s v = correction_iterate f pnorm told a (v\<lparr>cv_y := y1\<rparr>)"
        using eq False by simp
      then show ?thesis
        using fresh [of a "v\<lparr>cv_y := y1\<rparr>"] s1 m True by (simp add: a_def s2_def)
    qed
  qed
qed

lemma correction_pass_left:
  assumes "correction_pass f pnorm told s v = Inl (s', v')"
  shows "cv_restarts v' = cv_restarts v"
proof (cases rule: correction_pass_cases [of f pnorm told s v])
  case (plain a w)
  then show ?thesis using assms correction_iterate_left [of f pnorm told a w s' v'] by simp
next
  case (fresh a w)
  then show ?thesis using assms correction_iterate_left [of f pnorm told a w s' v'] by simp
next
  case (failed s'' v'')
  then show ?thesis using assms by simp
qed

lemma correction_pass_went_on:
  assumes "correction_pass f pnorm told s v = Inr (s', v')"
  shows "maxcor s' = maxcor s \<and> (restarts_ok s v \<longrightarrow> restarts_ok s' v') \<and>
         (cv_m v < maxcor s \<longrightarrow> cv_m v' < maxcor s' \<and> passes_left s' v' < passes_left s v)"
proof (cases rule: correction_pass_cases [of f pnorm told s v])
  case (plain a w)
  then have "went_on a w s' v'"
    using assms correction_iterate_went_on [of f pnorm told a w s' v'] by simp
  then show ?thesis
    using plain(2-5)
    by (auto simp: went_on_def same_iter_def restarts_ok_def passes_left_def restart_done_def)
next
  case (fresh a w)
  then have "went_on a w s' v'"
    using assms correction_iterate_went_on [of f pnorm told a w s' v'] by simp
  then show ?thesis
    using fresh(2-8)
    by (auto simp: went_on_def restarts_ok_def passes_left_def restart_done_def)
next
  case (failed s'' v'')
  then show ?thesis using assms by simp
qed

lemma correction_loop_restarts:
  "correction_loop fuel f pnorm told s v = Some (s', v') \<Longrightarrow> restarts_ok s v \<Longrightarrow> cv_restarts v' \<le> 1"
proof (induction fuel arbitrary: s v)
  case 0
  then show ?case by simp
next
  case (Suc fuel)
  show ?case
  proof (cases "correction_pass f pnorm told s v")
    case (Inl r)
    then have "correction_pass f pnorm told s v = Inl (s', v')" using Suc.prems by simp
    from correction_pass_left [OF this] Suc.prems(2) show ?thesis
      by (auto simp: restarts_ok_def)
  next
    case (Inr r)
    obtain s1 v1 where r: "r = (s1, v1)" by (cases r) auto
    have "restarts_ok s1 v1"
      using correction_pass_went_on [of f pnorm told s v s1 v1] Inr r Suc.prems(2) by simp
    then show ?thesis
      using Suc.IH [of s1 v1] Suc.prems(1) Inr r by simp
  qed
qed

lemma correction_loop_returns:
  "cv_m v < maxcor s \<Longrightarrow> passes_left s v \<le> fuel \<Longrightarrow>
   \<exists>r. correction_loop fuel f pnorm told s v = Some r"
proof (induction fuel arbitrary: s v)
  case 0
  then show ?case by (simp add: passes_left_def)
next
  case (Suc fuel)
  show ?case
  proof (cases "correction_pass f pnorm told s v")
    case (Inl r)
    then show ?thesis by simp
  next
    case (Inr r)
    obtain s1 v1 where r: "r = (s1, v1)" by (cases r) auto
    have "cv_m v1 < maxcor s1 \<and> passes_left s1 v1 < passes_left s v"
      using correction_pass_went_on [of f pnorm told s v s1 v1] Inr r Suc.prems(1) by simp
    then show ?thesis
      using Suc.IH [of v1 s1] Suc.prems(2) Inr r by simp
  qed
qed

lemma maxcor_ewset: "maxcor (ewset s y) = maxcor s"
  by (simp add: ewset_def)

lemma block_c_maxcor_flow:
  "(case lsoda_block_c f s y t tout itask istate h0 rworks of
      Stopped msg \<Rightarrow> True | Returned r \<Rightarrow> True | Next x \<Rightarrow> maxcor (fst x) = 3)"
  by (simp add: lsoda_block_c_def Let_def maxcor_ewset split_beta hide_arith)

lemma block_c_maxcor:
  "lsoda_block_c f s y t tout itask istate h0 rworks = Next (s', tcrit) \<Longrightarrow> maxcor s' = 3"
  using block_c_maxcor_flow [of f s y t tout itask istate h0 rworks] by simp

section \<open>The claims\<close>

subsection \<open>C1: the pivot search\<close>

text \<open>
  C1 says that \<^verbatim>\<open>idamax1(dx, n, offset)\<close> returns an index of an entry of largest magnitude
  among \<open>dx[1 + offset], ..., dx[n + offset]\<close>. The source compares magnitudes truncated to
  \<^verbatim>\<open>size_t\<close>: on the vector \<open>(0.25, 0.5)\<close> (stored from index 1) both truncate to 0, and it
  returns index 1 although the entry at index 2 is larger in magnitude.
\<close>

theorem idamax1_truncates_magnitudes:
  "idamax1 [0, 1 / 4, 1 / 2] 2 0 = 1 \<and>
   \<bar>[0, 1 / 4, 1 / 2 :: real] ! (1 + 0)\<bar> < \<bar>[0, 1 / 4, 1 / 2] ! (2 + 0)\<bar>"
  by (simp add: idamax1_def sz_of_double_def upt_rec)

subsection \<open>C4: the successful return\<close>

text \<open>
  C4: \<^verbatim>\<open>successreturn\<close> copies row 1 of the history into \<open>y[1..n]\<close>, sets \<open>*t\<close> to \<open>tn_\<close>, or to
  \<open>tcrit\<close> when \<open>itask\<close> is 4 or 5 and \<open>ihit\<close> is set, sets \<open>*istate\<close> to 2 and \<open>illin\<close> to 0, and
  changes nothing else of the state.
\<close>

theorem successreturn_result:
  "(case successreturn s y itask ihit tcrit of (s', y', t', istate') \<Rightarrow>
      (\<forall>i. 1 \<le> i \<and> i \<le> n s \<and> i < length y \<longrightarrow> y' ! i = yh s ! 1 ! i) \<and>
      length y' = length y \<and>
      t' = (if (itask = 4 \<or> itask = 5) \<and> ihit \<noteq> 0 then tcrit else tn s) \<and>
      istate' = 2 \<and> illin s' = 0 \<and> s' = s\<lparr>illin := 0\<rparr>)"
  by (simp add: successreturn_def Let_def load_y_nth length_load_y)

text \<open>An instance: two equations, \<open>itask = 4\<close> with the critical time 5 hit.\<close>

theorem successreturn_result_witness:
  "successreturn (zero_state\<lparr>n := 2, tn := 3, illin := 4, yh := [[0, 0, 0], [0, 7, 8], [0, 1, 1]]\<rparr>)
       [0, 0, 0] 4 1 5 =
     (zero_state\<lparr>n := 2, tn := 3, illin := 0, yh := [[0, 0, 0], [0, 7, 8], [0, 1, 1]]\<rparr>, [0, 7, 8], 5, 2)"
  using successreturn_result [of "zero_state\<lparr>n := 2, tn := 3, illin := 4, yh := [[0, 0, 0], [0, 7, 8], [0, 1, 1]]\<rparr>" "[0, 0, 0]" 4 1 5]
  by (simp add: successreturn_def load_y_def upt_rec)

subsection \<open>C5: the retraction undoes the prediction\<close>

text \<open>
  C5: for every history array, order \<open>q\<close> and dimension \<open>k\<close>, the prediction sweep followed by
  the retraction sweep gives the array back, in exact arithmetic; and with \<open>told\<close> the time
  before the step, the retraction of the predicted state is the state before the step.
\<close>

theorem retract_predict_identity:
  "yh_sweep (-) q k (yh_sweep (+) q k a) = a \<and> retract (tn s) (predict s) = s"
  by (simp add: retract_def predict_def yh_sweep_inverse)

subsection \<open>C6: when the interpolation refuses\<close>

text \<open>
  What \<^verbatim>\<open>intdy\<close> does for every input: it never changes the state; it returns a negative
  \<open>*iflag\<close> exactly when \<open>k < 0\<close>, or \<open>k > nq\<close>, or its test on the product of \<open>t - tp\<close> and
  \<open>t - tn1\<close> holds; and then it has written nothing to \<open>dky\<close>.
\<close>

lemma intdy_refusal:
  "(let tfuzz = 100 * ETA * sign (\<bar>tn s\<bar> + \<bar>hu s\<bar>) (hu s);
        tp = tn s - hu s - tfuzz;
        tn1 = tn s + tfuzz
    in case intdy s t k dky of (s', dky', iflag) \<Rightarrow>
         (iflag < 0) = (k < 0 \<or> int (nq s) < k \<or> product_positive (t - tp) (t - tn1)) \<and>
         (iflag < 0 \<longrightarrow> dky' = dky) \<and>
         s' = s)"
  by (simp add: intdy_def Let_def)

text \<open>
  C6 says that \<open>*iflag\<close> is negative if and only if \<open>k < 0\<close>, or \<open>k > nq\<close>, or \<open>t\<close> lies outside
  the interval \<open>[tn_ - hu - tfuzz, tn_ + tfuzz]\<close>. The comment of \<^verbatim>\<open>intdy\<close> says the same
  (\<^verbatim>\<open>*iflag is returned negative if either k or t is out of bounds\<close>). The code decides by
  the sign of a product of doubles, which underflows for a \<open>t\<close> close to the interval: in
  the state that an accepted step of size 0 from \<open>t = 0\<close> leaves (\<open>tn_ = hu = h_ = 0\<close>, so
  that \<open>tfuzz = 0\<close> and the interval is the point 0), the time \<open>2 ^ - 565\<close> lies outside the
  interval and \<^verbatim>\<open>intdy\<close> returns \<open>*iflag = 0\<close>; likewise after a step from 0 to \<open>2 ^ - 600\<close>
  for the time \<open>2 ^ - 590\<close>.
\<close>

theorem intdy_accepts_time_outside_interval:
  "snd (snd (intdy (tiny_step_state 0) (1 / 2 ^ 565) 0 [0, 1])) = 0 \<and>
   tn (tiny_step_state 0)
     + 100 * ETA * sign (\<bar>tn (tiny_step_state 0)\<bar> + \<bar>hu (tiny_step_state 0)\<bar>) (hu (tiny_step_state 0))
     < 1 / 2 ^ 565 \<and>
   snd (snd (intdy (tiny_step_state (1 / 2 ^ 600)) (1 / 2 ^ 590) 0 [0, 1])) = 0 \<and>
   tn (tiny_step_state (1 / 2 ^ 600))
     + 100 * ETA * sign (\<bar>tn (tiny_step_state (1 / 2 ^ 600))\<bar> + \<bar>hu (tiny_step_state (1 / 2 ^ 600))\<bar>)
         (hu (tiny_step_state (1 / 2 ^ 600)))
     < 1 / 2 ^ 590"
  by (simp add: intdy_def tiny_step_state_def zero_state_def product_positive_def sign_def ETA_def
      Let_def)

subsection \<open>C9: the interpolation depends on its arguments only\<close>

text \<open>
  C9: two calls of \<^verbatim>\<open>intdy\<close> with the same \<open>t\<close> and \<open>k\<close>, on states with the same \<open>nq\<close>, \<open>l\<close>,
  \<open>n\<close>, \<open>tn_\<close>, \<open>h_\<close>, \<open>hu\<close> and \<open>yh_\<close>, return the same \<open>*iflag\<close> and leave both states as they
  were; called on the same vector \<open>dky\<close> they return the same vector; and called on two
  vectors of one length they write the same values to the entries 1 to \<open>n\<close> (the other
  entries, and every entry when \<open>*iflag\<close> is negative, keep what the caller had there).
\<close>

theorem intdy_deterministic:
  fixes t :: real and k :: int
  assumes "nq s1 = nq s2" and "l s1 = l s2" and "n s1 = n s2" and "tn s1 = tn s2"
    and "h s1 = h s2" and "hu s1 = hu s2" and "yh s1 = yh s2"
  shows "(case (intdy s1 t k dky1, intdy s2 t k dky2) of ((s1', out1, iflag1), (s2', out2, iflag2)) \<Rightarrow>
           iflag1 = iflag2 \<and> s1' = s1 \<and> s2' = s2 \<and>
           (dky1 = dky2 \<longrightarrow> out1 = out2) \<and>
           (length dky1 = length dky2 \<and> iflag1 = 0 \<longrightarrow>
              (\<forall>i. 1 \<le> i \<and> i \<le> n s1 \<and> i < length dky1 \<longrightarrow> out1 ! i = out2 ! i)))"
proof -
  have same: "dky1 = dky2 \<Longrightarrow> snd (intdy s1 t k dky1) = snd (intdy s2 t k dky2)"
    using assms by (simp add: intdy_def Let_def)
  have flag: "snd (snd (intdy s1 t k dky1)) = snd (snd (intdy s2 t k dky2))"
    using assms by (simp add: intdy_def Let_def)
  have st: "fst (intdy s t k dky) = s" for s dky
    by (simp add: intdy_def Let_def)
  have ag: "agree (n s1) (fst (snd (intdy s1 t k dky1))) (fst (snd (intdy s2 t k dky2)))"
    if len: "length dky1 = length dky2" and ok: "snd (snd (intdy s1 t k dky1)) = 0"
  proof -
    define c0 where "c0 = real_of_int (fold (\<lambda>jj ic. ic * int jj) [sz_sub (l s2) (nat k)..<Suc (nq s2)] 1)"
    define sv where "sv = (t - tn s2) / h s2"
    define G where "G = (\<lambda>j i x. real_of_int (fold (\<lambda>jj ic. ic * jj) [j + 1 - k..j] 1) * yh s2 ! nat (j + 1) ! i + sv * x)"
    define stage2 where "stage2 = (\<lambda>d. fold (\<lambda>j d. fold (\<lambda>i d. d[i := G j i (d ! i)]) [1..<Suc (n s2)] d)
        (rev [k..int (nq s2) - 1])
        (fold (\<lambda>i d. d[i := c0 * yh s2 ! l s2 ! i]) [1..<Suc (n s2)] d))"
    have a2: "agree (n s2) (stage2 dky1) (stage2 dky2)"
      unfolding stage2_def by (intro agree_sweeps agree_set len)
    have a3: "agree (n s2) (fold (\<lambda>i d. d[i := d ! i * r]) [1..<Suc (n s2)] (stage2 dky1))
                          (fold (\<lambda>i d. d[i := d ! i * r]) [1..<Suc (n s2)] (stage2 dky2))" for r
      using agree_pointwise [OF a2, of "\<lambda>i x. x * r"] by simp
    show ?thesis
      using ok assms a2 a3
      by (simp add: intdy_def Let_def stage2_def G_def c0_def sv_def split: if_splits)
  qed
  show ?thesis
    using same flag st [of s1 dky1] st [of s2 dky2] ag
      length_intdy [of s1 t k dky1] length_intdy [of s2 t k dky2]
    by (cases "intdy s1 t k dky1"; cases "intdy s2 t k dky2") (auto simp: agree_def assms)
qed

text \<open>An instance: two states that differ in counters only, and two different vectors.\<close>

theorem intdy_deterministic_witness:
  "intdy one_step_state (3 / 2) 0 [0, 7] = (one_step_state, [0, 7 / 2], 0) \<and>
   intdy (one_step_state\<lparr>nst := 9, illin := 3\<rparr>) (3 / 2) 0 [1, 9] =
     (one_step_state\<lparr>nst := 9, illin := 3\<rparr>, [1, 7 / 2], 0)"
  using intdy_deterministic [where ?s1.0 = one_step_state
      and ?s2.0 = "one_step_state\<lparr>nst := 9, illin := 3\<rparr>"
      and t = "3 / 2" and k = 0 and ?dky1.0 = "[0, 7]" and ?dky2.0 = "[1, 9]"]
  by (simp add: intdy_def one_step_state_def product_positive_def sign_def ETA_def sz_sub_def
      upt_rec Let_def)

subsection \<open>C10: the requested time must lie ahead\<close>

text \<open>
  C10: when \<open>tout \<le> *t\<close>, \<^verbatim>\<open>lsoda\<close> throws before it validates or integrates anything, whatever
  its other arguments and the state are; \<^verbatim>\<open>lsoda_function\<close> passes \<open>*t\<close> and \<open>tout\<close> on and
  throws with it, so no status code is returned.
\<close>

theorem lsoda_rejects_nonincreasing_time:
  assumes "tout \<le> t"
  shows "lsoda fuel f s neq y t tout itask istate iopt jt iworks rworks = Some (Inl ''tout <= *t'') \<and>
         lsoda_function fuel f s neq y yout t tout istate rtol_arg atol_arg = Some (Inl ''tout <= *t'')"
  using assms by (simp add: lsoda_def lsoda_function_def Let_def)

text \<open>An instance: a repeated output time, and a time behind \<open>*t\<close>.\<close>

theorem lsoda_rejects_nonincreasing_time_witness:
  "lsoda 0 zero_rhs (LSODA_new zero_state) 1 [0, 1] 1 1 1 1 0 2 (replicate 7 0) (replicate 4 0) =
     Some (Inl ''tout <= *t'') \<and>
   lsoda_function 9 zero_rhs (LSODA_new zero_state) 1 [1] [] 1 (1 / 2) 2 0 0 = Some (Inl ''tout <= *t'')"
proof -
  have "(1::real) \<le> 1" and "(1 / 2 :: real) \<le> 1"
    by simp_all
  then show ?thesis
    using lsoda_rejects_nonincreasing_time [of 1 1] lsoda_rejects_nonincreasing_time [of "1 / 2" 1]
    by simp
qed

subsection \<open>C2: a weight that is not positive\<close>

text \<open>
  C2 says that \<^verbatim>\<open>lsoda\<close> returns a negative \<open>*istate\<close> whenever it returns because an error
  weight is not positive. In the loop it sets \<open>*istate = -6\<close> first; on the initial call it
  does not: with both tolerances 0 the first weight is 0, and the call returns through
  \<^verbatim>\<open>terminate2\<close> with \<open>*istate\<close> still 1.
\<close>

theorem lsoda_zero_weight_initial_call:
  "map_option (map_sum id (\<lambda>(s', yout, t', istate'). (ewt s' ! 1, yout, t', istate')))
     (lsoda_function fuel zero_rhs (LSODA_new zero_state) 1 [1] [] 0 1 1 0 0) =
   Some (Inr (0, [1], 0, 1))"
  by (simp add: lsoda_function_def lsoda_def lsoda_setup_def lsoda_block_b_def lsoda_alloc_def
      tol_illegal_def lsoda_block_c_def ret_terminate2_def terminate2_def ewset_def call_f_def
      load_y_def set2_def zero_rhs_def
      LSODA_new_def resize_def zero_state_def sz_inc_def sz_of_int_def Let_def upt_rec)

subsection \<open>C7: when the corrector diverges\<close>

text \<open>
  C7, for the code that follows \<^verbatim>\<open>(*m)++\<close> in \<^verbatim>\<open>correction\<close> (\<open>correction_next\<close>; the count after
  the increment is \<open>cv_m v + 1\<close>). Divergence is declared exactly when the count has reached
  \<open>maxcor\<close>, or is at least 2 while \<open>del\<close> exceeds twice \<open>delp\<close>: otherwise the iteration goes
  on with \<open>delp = del\<close> and a new evaluation of \<^verbatim>\<open>f\<close>. On divergence with \<open>miter \<noteq> 0\<close> and
  \<open>jcur \<noteq> 1\<close>, \<open>ipup\<close> is set to \<open>miter\<close> and the iteration restarts with \<open>m = 0\<close>; on divergence
  otherwise \<^verbatim>\<open>corfailure\<close> is called and \<^verbatim>\<open>correction\<close> returns with what it leaves, a \<open>corflag\<close>
  of 1 or 2. In a call of \<^verbatim>\<open>correction\<close> that returns the restart has happened at most once;
  with \<open>maxcor \<ge> 1\<close> the call returns, within \<open>2 * maxcor\<close> passes of its loop. Block c of
  \<^verbatim>\<open>lsoda\<close> sets \<open>maxcor\<close> to 3.
\<close>

theorem correction_divergence:
  "(let diverged = (cv_m v + 1 = maxcor s \<or> 2 \<le> cv_m v + 1 \<and> 2 * cv_delp v < cv_del v)
    in (\<not> diverged \<longrightarrow>
          correction_next f told s v =
            Inr (s\<lparr>savf := call_f f (tn s) (cv_y v) (savf s), nfe := nfe s + 1\<rparr>,
                 v\<lparr>cv_m := cv_m v + 1, cv_delp := cv_del v\<rparr>)) \<and>
       (diverged \<and> miter s \<noteq> 0 \<and> jcur s \<noteq> 1 \<longrightarrow>
          correction_next f told s v =
            Inr (s\<lparr>ipup := miter s, savf := call_f f (tn s) (load_y s (cv_y v)) (savf s),
                    nfe := nfe s + 1\<rparr>,
                 v\<lparr>cv_m := 0, cv_rate := 0, cv_del := 0, cv_y := load_y s (cv_y v),
                    cv_restarts := cv_restarts v + 1\<rparr>)) \<and>
       (diverged \<and> (miter s = 0 \<or> jcur s = 1) \<longrightarrow>
          (case corfailure s told (cv_rh v) (cv_ncf v) of
             (s', rh', ncf', corflag') \<Rightarrow>
               correction_next f told s v =
                 Inl (s', v\<lparr>cv_m := cv_m v + 1, cv_rh := rh', cv_ncf := ncf', cv_corflag := corflag'\<rparr>) \<and>
               (corflag' = 1 \<or> corflag' = 2)))) \<and>
   (\<forall>s' c. correction fuel f s y pnorm delp told ncf rh = Some (s', c) \<longrightarrow> cv_restarts c \<le> 1) \<and>
   (1 \<le> maxcor s \<longrightarrow> (\<exists>r. correction (2 * maxcor s) f s y pnorm delp told ncf rh = Some r)) \<and>
   (\<forall>s' tcrit. lsoda_block_c f s y t tout itask istate h0 rworks = Next (s', tcrit) \<longrightarrow> maxcor s' = 3)"
proof -
  define v0 where "v0 = \<lparr>cv_y = load_y s y, cv_corflag = 0, cv_del = 0, cv_delp = delp, cv_ncf = ncf,
                cv_rh = rh, cv_m = 0, cv_rate = 0, cv_restarts = 0\<rparr>"
  define s0 where "s0 = s\<lparr>savf := call_f f (tn s) (cv_y v0) (savf s), nfe := nfe s + 1\<rparr>"
  have eq: "correction k f s y pnorm delp told ncf rh = correction_loop k f pnorm told s0 v0" for k
    by (simp add: correction_def Let_def s0_def v0_def)
  have ok: "restarts_ok s0 v0" by (simp add: restarts_ok_def v0_def)
  have once: "cv_restarts c \<le> 1" if "correction fuel f s y pnorm delp told ncf rh = Some (s', c)" for s' c
    using that correction_loop_restarts [OF _ ok, of fuel f pnorm told s' c] by (simp add: eq)
  have returns: "\<exists>r. correction (2 * maxcor s) f s y pnorm delp told ncf rh = Some r" if "1 \<le> maxcor s"
  proof -
    have "cv_m v0 < maxcor s0" using that by (simp add: v0_def s0_def)
    moreover have "passes_left s0 v0 \<le> 2 * maxcor s"
      by (simp add: passes_left_def v0_def s0_def)
    ultimately show ?thesis
      using correction_loop_returns [of v0 s0 "2 * maxcor s" f pnorm told] by (simp add: eq)
  qed
  have fails: "(case corfailure s told (cv_rh v) (cv_ncf v) of
             (s', rh', ncf', corflag') \<Rightarrow>
               correction_next f told s v =
                 Inl (s', v\<lparr>cv_m := cv_m v + 1, cv_rh := rh', cv_ncf := ncf', cv_corflag := corflag'\<rparr>) \<and>
               (corflag' = 1 \<or> corflag' = 2))"
    if "cv_m v + 1 = maxcor s \<or> 2 \<le> cv_m v + 1 \<and> 2 * cv_delp v < cv_del v" "miter s = 0 \<or> jcur s = 1"
    using correction_next_fails [OF that, of f told] corfailure_corflag [of s told "cv_rh v" "cv_ncf v"]
    by (simp add: split_beta)
  show ?thesis
    unfolding Let_def
  proof (intro conjI impI allI)
    assume "\<not> (cv_m v + 1 = maxcor s \<or> 2 \<le> cv_m v + 1 \<and> 2 * cv_delp v < cv_del v)"
    then show "correction_next f told s v =
            Inr (s\<lparr>savf := call_f f (tn s) (cv_y v) (savf s), nfe := nfe s + 1\<rparr>,
                 v\<lparr>cv_m := cv_m v + 1, cv_delp := cv_del v\<rparr>)"
      by (rule correction_next_continues)
  next
    assume "(cv_m v + 1 = maxcor s \<or> 2 \<le> cv_m v + 1 \<and> 2 * cv_delp v < cv_del v) \<and>
            miter s \<noteq> 0 \<and> jcur s \<noteq> 1"
    then show "correction_next f told s v =
            Inr (s\<lparr>ipup := miter s, savf := call_f f (tn s) (load_y s (cv_y v)) (savf s),
                    nfe := nfe s + 1\<rparr>,
                 v\<lparr>cv_m := 0, cv_rate := 0, cv_del := 0, cv_y := load_y s (cv_y v),
                    cv_restarts := cv_restarts v + 1\<rparr>)"
      by (intro correction_next_restarts) simp_all
  next
    assume "(cv_m v + 1 = maxcor s \<or> 2 \<le> cv_m v + 1 \<and> 2 * cv_delp v < cv_del v) \<and>
            (miter s = 0 \<or> jcur s = 1)"
    then show "(case corfailure s told (cv_rh v) (cv_ncf v) of
             (s', rh', ncf', corflag') \<Rightarrow>
               correction_next f told s v =
                 Inl (s', v\<lparr>cv_m := cv_m v + 1, cv_rh := rh', cv_ncf := ncf', cv_corflag := corflag'\<rparr>) \<and>
               (corflag' = 1 \<or> corflag' = 2))"
      by (intro fails) simp_all
  next
    fix s' c
    assume "correction fuel f s y pnorm delp told ncf rh = Some (s', c)"
    then show "cv_restarts c \<le> 1" by (rule once)
  next
    assume "1 \<le> maxcor s"
    then show "\<exists>r. correction (2 * maxcor s) f s y pnorm delp told ncf rh = Some r"
      by (rule returns)
  next
    fix s' tcrit
    assume "lsoda_block_c f s y t tout itask istate h0 rworks = Next (s', tcrit)"
    then show "maxcor s' = 3" by (rule block_c_maxcor)
  qed
qed

text \<open>
  An instance: after a third iteration that has not converged the corrector restarts when
  the Jacobian is not current, and fails with \<open>corflag = 1\<close>, \<open>rh = 1/4\<close> and \<open>ipup = miter\<close>
  when it is; the call on that state returns within 6 passes.
\<close>

theorem correction_divergence_witness:
  "correction_next zero_rhs 0 chord_state third_iterate =
     Inr (chord_state\<lparr>ipup := 2, nfe := 1\<rparr>,
          third_iterate\<lparr>cv_m := 0, cv_del := 0, cv_restarts := 1\<rparr>) \<and>
   (\<exists>r. correction 6 zero_rhs chord_state [0, 1] 1 0 0 0 1 = Some r) \<and>
   (case correction_next zero_rhs 0 (chord_state\<lparr>jcur := 1\<rparr>) third_iterate of
      Inl (s', v') \<Rightarrow> cv_corflag v' = 1 \<and> cv_m v' = 3 \<and> cv_rh v' = 1 / 4 \<and> ipup s' = 2
    | Inr x \<Rightarrow> False)"
  using correction_divergence [of third_iterate chord_state zero_rhs 0 6 "[0, 1]" 1 0 0 1]
    correction_divergence [of third_iterate "chord_state\<lparr>jcur := 1\<rparr>" zero_rhs 0]
  by (simp add: chord_state_def third_iterate_def zero_state_def zero_rhs_def call_f_def load_y_def
      corfailure_def retract_def yh_sweep_def yh_row_op_def upt_rec Let_def)

subsection \<open>C3: illegal input\<close>

text \<open>
  C3 says that a call rejected for illegal input adds one to \<open>illin\<close> when it is below 5,
  returns \<open>*istate = -3\<close> and changes nothing else of the state, and that with \<open>illin\<close> at 5 the
  run is aborted. Neither holds as stated. The checks run in sequence and assign members on
  their way: an illegal \<open>jt\<close> is found after \<open>ntrep\<close> and \<open>n\<close> have been assigned, and the first
  call below, on an object whose last call had two equations, leaves \<open>n = 1\<close> where it was 2.
  With \<open>illin = 5\<close> \<^verbatim>\<open>terminate\<close> returns as any other call does, and leaves \<open>*istate\<close> as it was
  (here the illegal value 7).
\<close>

theorem lsoda_illegal_input_counterexample:
  "lsoda 1 zero_rhs ((LSODA_new zero_state)\<lparr>ntrep := 0, n := 2, illin := 1\<rparr>) 1 [0, 1] 0 1 1 1 0 3
       (replicate 7 0) (replicate 4 0) =
     Some (Inr \<lparr>r_state = (LSODA_new zero_state)\<lparr>ntrep := 0, n := 1, illin := 2\<rparr>, r_y = [0, 1], r_t = 0,
                r_istate = - 3, r_exit = Illegal_input\<rparr>) \<and>
   n ((LSODA_new zero_state)\<lparr>ntrep := 0, n := 2, illin := 1\<rparr>) = 2 \<and>
   lsoda 1 zero_rhs ((LSODA_new zero_state)\<lparr>illin := 5\<rparr>) 1 [0, 1] 0 1 1 7 0 2 (replicate 7 0) (replicate 4 0) =
     Some (Inr \<lparr>r_state = (LSODA_new zero_state)\<lparr>illin := 5\<rparr>, r_y = [0, 1], r_t = 0,
                r_istate = 7, r_exit = Illegal_input\<rparr>)"
  by (simp add: lsoda_def lsoda_setup_def lsoda_block_b_def ret_terminate_def terminate_def
      LSODA_new_def resize_def zero_state_def sz_inc_def sz_of_int_def Let_def)

text \<open>
  C3 as the code has it, for a call that starts with \<open>illin\<close> below 5. Every call that ends in
  \<^verbatim>\<open>terminate\<close> has incremented \<open>illin\<close> by one and returns \<open>*istate = -3\<close>, with \<open>*t\<close> as it was.
  A call rejected by one of the first three checks (\<open>*istate\<close> outside 1 to 3, \<open>itask\<close> outside
  1 to 5, a continuation before the initialisation) changes no other member. A call rejected
  for \<open>neq\<close> has set \<open>ntrep\<close> to 0 besides, and a call rejected for \<open>itol\<close>, \<open>iopt\<close> or \<open>jt\<close> has
  set \<open>ntrep\<close> to 0 and \<open>n\<close> to \<open>neq\<close> besides; in each case \<open>y\<close> is as it was.
\<close>

theorem lsoda_illegal_input:
  assumes "illin s < 5"
  shows "(\<forall>r. lsoda fuel f s neq y t tout itask istate iopt jt iworks rworks = Some (Inr r) \<and>
              r_exit r = Illegal_input \<longrightarrow>
              illin (r_state r) = illin s + 1 \<and> r_istate r = - 3 \<and> r_t r = t) \<and>
         (t < tout \<and>
          (istate < 1 \<or> 3 < istate \<or> itask < 1 \<or> 5 < itask \<or>
           init s = 0 \<and> (istate = 2 \<or> istate = 3)) \<longrightarrow>
          lsoda fuel f s neq y t tout itask istate iopt jt iworks rworks =
            Some (Inr \<lparr>r_state = s\<lparr>illin := illin s + 1\<rparr>, r_y = y, r_t = t,
                       r_istate = - 3, r_exit = Illegal_input\<rparr>)) \<and>
         (t < tout \<and> 1 \<le> itask \<and> itask \<le> 5 \<and> (istate = 1 \<or> istate = 3 \<and> init s \<noteq> 0) \<and>
          (neq = 0 \<or> istate = 3 \<and> n s < neq) \<longrightarrow>
          lsoda fuel f s neq y t tout itask istate iopt jt iworks rworks =
            Some (Inr \<lparr>r_state = s\<lparr>ntrep := 0, illin := illin s + 1\<rparr>, r_y = y, r_t = t,
                       r_istate = - 3, r_exit = Illegal_input\<rparr>)) \<and>
         (t < tout \<and> 1 \<le> itask \<and> itask \<le> 5 \<and> (istate = 1 \<or> istate = 3 \<and> init s \<noteq> 0) \<and>
          0 < neq \<and> \<not> (istate = 3 \<and> n s < neq) \<and>
          (itol s < 1 \<or> 4 < itol s \<or> iopt < 0 \<or> 1 < iopt \<or> jt = 3 \<or> jt < 1 \<or> 5 < jt) \<longrightarrow>
          lsoda fuel f s neq y t tout itask istate iopt jt iworks rworks =
            Some (Inr \<lparr>r_state = s\<lparr>ntrep := 0, n := neq, illin := illin s + 1\<rparr>, r_y = y, r_t = t,
                       r_istate = - 3, r_exit = Illegal_input\<rparr>))"
proof (intro conjI allI impI)
  fix r
  assume "lsoda fuel f s neq y t tout itask istate iopt jt iworks rworks = Some (Inr r) \<and>
          r_exit r = Illegal_input"
  then show "illin (r_state r) = illin s + 1" "r_istate r = - 3" "r_t r = t"
    using illegal_ok_lsoda [of fuel f s neq y t tout itask istate iopt jt iworks rworks r] assms
    by (simp_all add: illegal_ok_def sz_inc_small)
next
  assume a: "t < tout \<and>
          (istate < 1 \<or> 3 < istate \<or> itask < 1 \<or> 5 < itask \<or>
           init s = 0 \<and> (istate = 2 \<or> istate = 3))"
  then have "lsoda_setup f s neq y t tout itask istate iopt jt iworks rworks =
               Returned (ret_terminate s y t istate)"
    by (auto simp: lsoda_setup_def)
  then show "lsoda fuel f s neq y t tout itask istate iopt jt iworks rworks =
            Some (Inr \<lparr>r_state = s\<lparr>illin := illin s + 1\<rparr>, r_y = y, r_t = t,
                       r_istate = - 3, r_exit = Illegal_input\<rparr>)"
    using assms a by (simp add: lsoda_def ret_terminate_def terminate_def sz_inc_small)
next
  assume a: "t < tout \<and> 1 \<le> itask \<and> itask \<le> 5 \<and> (istate = 1 \<or> istate = 3 \<and> init s \<noteq> 0) \<and>
          (neq = 0 \<or> istate = 3 \<and> n s < neq)"
  then have "lsoda_block_b s neq y t tout istate iopt jt iworks rworks =
           Returned (ret_terminate (s\<lparr>ntrep := 0\<rparr>) y t istate)"
    by (intro block_b_rejects_neq) auto
  with a have "lsoda_setup f s neq y t tout itask istate iopt jt iworks rworks =
           Returned (ret_terminate (s\<lparr>ntrep := 0\<rparr>) y t istate)"
    by (intro setup_passes_block_a) auto
  then show "lsoda fuel f s neq y t tout itask istate iopt jt iworks rworks =
            Some (Inr \<lparr>r_state = s\<lparr>ntrep := 0, illin := illin s + 1\<rparr>, r_y = y, r_t = t,
                       r_istate = - 3, r_exit = Illegal_input\<rparr>)"
    using assms a by (simp add: lsoda_def ret_terminate_def terminate_def sz_inc_small)
next
  assume a: "t < tout \<and> 1 \<le> itask \<and> itask \<le> 5 \<and> (istate = 1 \<or> istate = 3 \<and> init s \<noteq> 0) \<and>
          0 < neq \<and> \<not> (istate = 3 \<and> n s < neq) \<and>
          (itol s < 1 \<or> 4 < itol s \<or> iopt < 0 \<or> 1 < iopt \<or> jt = 3 \<or> jt < 1 \<or> 5 < jt)"
  then have "lsoda_block_b s neq y t tout istate iopt jt iworks rworks =
           Returned (ret_terminate (s\<lparr>ntrep := 0, n := neq\<rparr>) y t istate)"
    by (intro block_b_rejects_flags) auto
  with a have "lsoda_setup f s neq y t tout itask istate iopt jt iworks rworks =
           Returned (ret_terminate (s\<lparr>ntrep := 0, n := neq\<rparr>) y t istate)"
    by (intro setup_passes_block_a) auto
  then show "lsoda fuel f s neq y t tout itask istate iopt jt iworks rworks =
            Some (Inr \<lparr>r_state = s\<lparr>ntrep := 0, n := neq, illin := illin s + 1\<rparr>, r_y = y, r_t = t,
                       r_istate = - 3, r_exit = Illegal_input\<rparr>)"
    using assms a by (simp add: lsoda_def ret_terminate_def terminate_def sz_inc_small)
qed

text \<open>
  An instance: on a new object, a call with two equations and the illegal \<open>jt = 3\<close>, and a call
  with the illegal \<open>*istate = 0\<close>.
\<close>

theorem lsoda_illegal_input_witness:
  "illin (LSODA_new zero_state) < 5 \<and>
   lsoda 1 zero_rhs (LSODA_new zero_state) 2 [0, 1, 1] 0 1 1 1 0 3 (replicate 7 0) (replicate 4 0) =
     Some (Inr \<lparr>r_state = (LSODA_new zero_state)\<lparr>ntrep := 0, n := 2, illin := 1\<rparr>, r_y = [0, 1, 1],
                r_t = 0, r_istate = - 3, r_exit = Illegal_input\<rparr>) \<and>
   lsoda 1 zero_rhs (LSODA_new zero_state) 2 [0, 1, 1] 0 1 1 0 0 2 (replicate 7 0) (replicate 4 0) =
     Some (Inr \<lparr>r_state = (LSODA_new zero_state)\<lparr>illin := 1\<rparr>, r_y = [0, 1, 1],
                r_t = 0, r_istate = - 3, r_exit = Illegal_input\<rparr>)"
  using lsoda_illegal_input [of "LSODA_new zero_state" 1 zero_rhs 2 "[0, 1, 1]" 0 1 1 1 0 3
      "replicate 7 0" "replicate 4 0"]
    lsoda_illegal_input [of "LSODA_new zero_state" 1 zero_rhs 2 "[0, 1, 1]" 0 1 1 0 0 2
      "replicate 7 0" "replicate 4 0"]
  by (simp add: LSODA_new_def zero_state_def)

end
